theory Spec2Isabelle
  imports Main "HOL-Library.Word"
begin

unbundle bit_operations_syntax

section \<open>Shearwater Predator / Petrel dive-log parser\<close>

text \<open>
  A shallow embedding of \<^verbatim>\<open>src/shearwater_predator_parser.c\<close>.

  Conventions of the embedding.
  \<^item> The dive buffer (\<^verbatim>\<open>base.data\<close>, \<^verbatim>\<open>base.size\<close>) is a list of bytes; its size is the
    length of the list.
  \<^item> \<^verbatim>\<open>unsigned int\<close> values are natural numbers. The buffers handled are far smaller
    than 4 GiB, so offset sums do not wrap; the one place where the C code subtracts
    two arbitrary 32-bit values (the bookmark time) has the wrap-around written out.
  \<^item> C has no bounds checks. Every read of the buffer and every indexed array access
    of the model is checked, and an access outside the object is the outcome
    \<open>OUT_OF_BOUNDS\<close>: it stands for the undefined behaviour of the C program and is
    not a status the C function returns.
  \<^item> Values the C code computes in floating point (unit conversions, calibration
    factors) are kept as the integer operands of the conversion.
\<close>

subsection \<open>Constants\<close>

definition LOG_RECORD_DIVE_SAMPLE :: nat where "LOG_RECORD_DIVE_SAMPLE = 0x01"
definition LOG_RECORD_FREEDIVE_SAMPLE :: nat where "LOG_RECORD_FREEDIVE_SAMPLE = 0x02"
definition LOG_RECORD_OPENING_0 :: nat where "LOG_RECORD_OPENING_0 = 0x10"
definition LOG_RECORD_OPENING_7 :: nat where "LOG_RECORD_OPENING_7 = 0x17"
definition LOG_RECORD_CLOSING_0 :: nat where "LOG_RECORD_CLOSING_0 = 0x20"
definition LOG_RECORD_CLOSING_7 :: nat where "LOG_RECORD_CLOSING_7 = 0x27"
definition LOG_RECORD_INFO_EVENT :: nat where "LOG_RECORD_INFO_EVENT = 0x30"
definition LOG_RECORD_FINAL :: nat where "LOG_RECORD_FINAL = 0xFF"

definition SZ_BLOCK :: nat where "SZ_BLOCK = 0x80"
definition SZ_SAMPLE_PREDATOR :: nat where "SZ_SAMPLE_PREDATOR = 0x10"
definition SZ_SAMPLE_PETREL :: nat where "SZ_SAMPLE_PETREL = 0x20"
definition SZ_SAMPLE_FREEDIVE :: nat where "SZ_SAMPLE_FREEDIVE = 0x08"

definition PPO2_EXTERNAL :: nat where "PPO2_EXTERNAL = 0x02"
definition SETPOINT_HIGH :: nat where "SETPOINT_HIGH = 0x04"
definition OC :: nat where "OC = 0x10"

definition METRIC :: nat where "METRIC = 0"
definition IMPERIAL :: nat where "IMPERIAL = 1"

definition NGASMIXES :: nat where "NGASMIXES = 10"
definition MAXSTRINGS :: nat where "MAXSTRINGS = 32"
definition NRECORDS :: nat where "NRECORDS = 7"

definition PREDATOR :: nat where "PREDATOR = 2"
definition INFO_EVENT_TAG_LOG :: nat where "INFO_EVENT_TAG_LOG = 38"

definition UNDEFINED :: nat where "UNDEFINED = 0xFFFFFFFF"

subsection \<open>Results\<close>

text \<open>
  \<open>dc_status_t\<close>, restricted to the values this file returns, and \<open>OUT_OF_BOUNDS\<close>
  for an access outside the buffer or outside an array. Helper functions return
  \<open>dc_status_t + 'a\<close>, with \<open>Inl\<close> for every outcome but success.
\<close>

datatype dc_status_t =
    DC_STATUS_SUCCESS
  | DC_STATUS_UNSUPPORTED
  | DC_STATUS_NOMEMORY
  | DC_STATUS_DATAFORMAT
  | OUT_OF_BOUNDS

definition rbind :: "dc_status_t + 'a \<Rightarrow> ('a \<Rightarrow> dc_status_t + 'b) \<Rightarrow> dc_status_t + 'b" where
  "rbind m f = (case m of Inl e \<Rightarrow> Inl e | Inr x \<Rightarrow> f x)"

subsection \<open>Buffer primitives\<close>

type_synonym byte = "8 word"

text \<open>\<^verbatim>\<open>data[i]\<close>\<close>

definition u8 :: "byte list \<Rightarrow> nat \<Rightarrow> dc_status_t + nat" where
  "u8 data i = (if i < length data then Inr (unat (data ! i)) else Inl OUT_OF_BOUNDS)"

text \<open>
  Modelled from the spec: \<^verbatim>\<open>array_uint16_be\<close>, \<^verbatim>\<open>array_uint24_be\<close>, \<^verbatim>\<open>array_uint32_be\<close>
  and \<^verbatim>\<open>array_isequal\<close> live in \<^verbatim>\<open>array.c\<close>, which is not part of the sources at hand.
  The spec describes them as big-endian u16/u24/u32 reads and an "is the region all
  equal to a byte" test over \<open>(buffer, offset[, length])\<close>.
\<close>

definition array_uint16_be :: "byte list \<Rightarrow> nat \<Rightarrow> dc_status_t + nat" where
  "array_uint16_be data i =
     rbind (u8 data i) (\<lambda>b0.
     rbind (u8 data (i + 1)) (\<lambda>b1.
     Inr (b0 * 256 + b1)))"

definition array_uint24_be :: "byte list \<Rightarrow> nat \<Rightarrow> dc_status_t + nat" where
  "array_uint24_be data i =
     rbind (u8 data i) (\<lambda>b0.
     rbind (u8 data (i + 1)) (\<lambda>b1.
     rbind (u8 data (i + 2)) (\<lambda>b2.
     Inr (b0 * 65536 + b1 * 256 + b2))))"

definition array_uint32_be :: "byte list \<Rightarrow> nat \<Rightarrow> dc_status_t + nat" where
  "array_uint32_be data i =
     rbind (u8 data i) (\<lambda>b0.
     rbind (u8 data (i + 1)) (\<lambda>b1.
     rbind (u8 data (i + 2)) (\<lambda>b2.
     rbind (u8 data (i + 3)) (\<lambda>b3.
     Inr (b0 * 16777216 + b1 * 65536 + b2 * 256 + b3)))))"

definition array_isequal :: "byte list \<Rightarrow> nat \<Rightarrow> nat \<Rightarrow> byte \<Rightarrow> dc_status_t + bool" where
  "array_isequal data i n v =
     (if i + n \<le> length data then Inr (list_all (\<lambda>b. b = v) (take n (drop i data)))
      else Inl OUT_OF_BOUNDS)"

text \<open>
  Lines 516 and 806: the type of the record at \<open>offset\<close>. Only a PNF record has a
  type byte; a legacy record is always a dive sample.
\<close>

definition record_type :: "byte list \<Rightarrow> nat \<Rightarrow> nat \<Rightarrow> dc_status_t + nat" where
  "record_type data pnf_v offset = (if pnf_v \<noteq> 0 then u8 data offset else Inr LOG_RECORD_DIVE_SAMPLE)"

subsection \<open>The parser object\<close>

datatype dc_divemode_t = DC_DIVEMODE_FREEDIVE | DC_DIVEMODE_OC | DC_DIVEMODE_CCR

text \<open>
  The value of a descriptive string. \<^verbatim>\<open>add_string_fmt\<close> renders its format with
  \<^verbatim>\<open>vsnprintf\<close>; the model keeps the format and its arguments instead of the rendered
  text.
\<close>

datatype fmt_arg = ArgN nat | ArgS string

datatype str_value = Literal string | Formatted string "fmt_arg list"

type_synonym dc_field_string_t = "string \<times> str_value"

text \<open>
  \<^verbatim>\<open>struct shearwater_predator_parser_t\<close>. \<open>base_data\<close> is the buffer of the base object
  (\<^verbatim>\<open>base.data\<close>, with \<^verbatim>\<open>base.size\<close> its length).
  \<open>calibration\<close> holds the three raw 16-bit calibration values (the C field holds them
  divided by 100000.0, and times 2.2 on the Predator). \<open>strings\<close> is the filled prefix of
  the C array of \<open>MAXSTRINGS\<close> slots: slots are only ever filled in order by
  \<^verbatim>\<open>add_string\<close>, and a slot is free when its \<^verbatim>\<open>desc\<close> is NULL.
\<close>

record shearwater_predator_parser_t =
  base_data :: "byte list"
  model :: nat
  petrel :: nat
  samplesize :: nat
  cached :: nat
  pnf :: nat
  logversion :: nat
  headersize :: nat
  footersize :: nat
  "opening" :: "nat list"
  closing :: "nat list"
  final :: nat
  ngasmixes :: nat
  oxygen :: "nat list"
  helium :: "nat list"
  calibrated :: nat
  calibration :: "nat list"
  serial :: nat
  mode :: dc_divemode_t
  units :: nat
  atmospheric :: nat
  density :: nat
  strings :: "dc_field_string_t list"

text \<open>\<^verbatim>\<open>shearwater_predator_find_gasmix\<close>: the \<^verbatim>\<open>while\<close> loop, from index \<open>i\<close>.\<close>

function find_gasmix_from :: "nat list \<Rightarrow> nat list \<Rightarrow> nat \<Rightarrow> nat \<Rightarrow> nat \<Rightarrow> nat \<Rightarrow> nat" where
  "find_gasmix_from oxy hel n o2 he i =
     (if i < n then
        (if o2 = oxy ! i \<and> he = hel ! i then i
         else find_gasmix_from oxy hel n o2 he (i + 1))
      else i)"
  by pat_completeness auto
termination
  by (relation "measure (\<lambda>(oxy, hel, n, o2, he, i). n - i)") auto

declare find_gasmix_from.simps [simp del]

definition shearwater_predator_find_gasmix :: "shearwater_predator_parser_t \<Rightarrow> nat \<Rightarrow> nat \<Rightarrow> nat" where
  "shearwater_predator_find_gasmix parser o2 he =
     find_gasmix_from (oxygen parser) (helium parser) (ngasmixes parser) o2 he 0"

text \<open>
  \<^verbatim>\<open>shearwater_common_parser_create\<close>. \<open>ATM / (BAR / 1000)\<close> is 1013.25 with the macros of
  \<^verbatim>\<open>units.h\<close> (101325.0 and 100000.0), stored in an \<^verbatim>\<open>unsigned int\<close>: 1013.
  The buffer of a new parser is empty.
\<close>

definition shearwater_common_parser_create :: "nat \<Rightarrow> nat \<Rightarrow> nat \<Rightarrow> shearwater_predator_parser_t" where
  "shearwater_common_parser_create model_v serial_v petrel_v =
     \<lparr> base_data = [], model = model_v, petrel = petrel_v,
       samplesize = (if petrel_v \<noteq> 0 then SZ_SAMPLE_PETREL else SZ_SAMPLE_PREDATOR),
       cached = 0, pnf = 0, logversion = 0, headersize = 0, footersize = 0,
       opening = replicate NRECORDS UNDEFINED, closing = replicate NRECORDS UNDEFINED,
       final = UNDEFINED, ngasmixes = 0,
       oxygen = replicate NGASMIXES 0, helium = replicate NGASMIXES 0,
       calibrated = 0, calibration = replicate 3 0, serial = serial_v,
       mode = DC_DIVEMODE_OC, units = METRIC, atmospheric = 1013, density = 1025,
       strings = [] \<rparr>"

definition shearwater_predator_parser_create :: "nat \<Rightarrow> nat \<Rightarrow> shearwater_predator_parser_t" where
  "shearwater_predator_parser_create model_v serial_v = shearwater_common_parser_create model_v serial_v 0"

definition shearwater_petrel_parser_create :: "nat \<Rightarrow> nat \<Rightarrow> shearwater_predator_parser_t" where
  "shearwater_petrel_parser_create model_v serial_v = shearwater_common_parser_create model_v serial_v 1"

text \<open>\<^verbatim>\<open>shearwater_predator_parser_set_data\<close>: resets the cache.\<close>

definition shearwater_predator_parser_set_data :: "shearwater_predator_parser_t \<Rightarrow> shearwater_predator_parser_t" where
  "shearwater_predator_parser_set_data parser =
     parser \<lparr> cached := 0, pnf := 0, logversion := 0, headersize := 0, footersize := 0,
       opening := replicate NRECORDS UNDEFINED, closing := replicate NRECORDS UNDEFINED,
       final := UNDEFINED, ngasmixes := 0,
       oxygen := replicate NGASMIXES 0, helium := replicate NGASMIXES 0,
       calibrated := 0, calibration := replicate 3 0,
       mode := DC_DIVEMODE_OC, units := METRIC, density := 1025, atmospheric := 1013 \<rparr>"

text \<open>
  Modelled from the spec: \<^verbatim>\<open>dc_parser_set_data\<close> of \<^verbatim>\<open>parser.c\<close> is not part of the sources at
  hand. The decoder "receives exactly one buffer (replacing any prior buffer resets
  the cache to empty)": the base object takes the buffer and the parser's own
  \<^verbatim>\<open>set_data\<close> runs.
\<close>

definition dc_parser_set_data :: "shearwater_predator_parser_t \<Rightarrow> byte list \<Rightarrow> shearwater_predator_parser_t" where
  "dc_parser_set_data parser buf = shearwater_predator_parser_set_data (parser \<lparr> base_data := buf \<rparr>)"

subsection \<open>Descriptive strings\<close>

text \<open>\<^verbatim>\<open>add_string\<close>: the first free slot takes the pair; with no free slot nothing happens.\<close>

definition add_string :: "shearwater_predator_parser_t \<Rightarrow> string \<Rightarrow> str_value \<Rightarrow> shearwater_predator_parser_t" where
  "add_string parser desc v =
     (if length (strings parser) < MAXSTRINGS
      then parser \<lparr> strings := strings parser @ [(desc, v)] \<rparr>
      else parser)"

definition add_string_fmt :: "shearwater_predator_parser_t \<Rightarrow> string \<Rightarrow> string \<Rightarrow> fmt_arg list \<Rightarrow> shearwater_predator_parser_t" where
  "add_string_fmt parser desc fmt args = add_string parser desc (Formatted fmt args)"

text \<open>
  \<^verbatim>\<open>battery_state\<close>: the 16-bit big-endian word at \<open>i\<close>, decoded to a one-bit mask.
  \<open>battery_state_bits\<close> is the body of the function after the read.
\<close>

definition battery_state_bits :: "nat \<Rightarrow> nat" where
  "battery_state_bits pressure =
     (if pressure AND 0xFFF0 = 0xFFF0 then 0
      else (let state = drop_bit 12 pressure in
            if state > 2 then 0 else push_bit state 1))"

definition battery_state :: "byte list \<Rightarrow> nat \<Rightarrow> dc_status_t + nat" where
  "battery_state data i = rbind (array_uint16_be data i) (\<lambda>pressure. Inr (battery_state_bits pressure))"

text \<open>\<^verbatim>\<open>add_battery_info\<close>, with its table \<^verbatim>\<open>states[8]\<close>.\<close>

definition states :: "string list" where
  "states = ['''', ''normal'', ''critical'', ''critical'',
             ''warning'', ''warning'', ''critical'', ''critical'']"

definition add_battery_info :: "shearwater_predator_parser_t \<Rightarrow> string \<Rightarrow> nat \<Rightarrow> shearwater_predator_parser_t" where
  "add_battery_info parser desc state =
     (if state \<ge> 1 \<and> state \<le> 7 then add_string parser desc (Literal (states ! state))
      else parser)"

subsection \<open>The layout cache\<close>

text \<open>
  The local variables of \<^verbatim>\<open>shearwater_predator_parser_cache\<close> that the record sweep
  updates: the dive mode, the gas-mix table being built, the previous gas mix and the
  two transmitter battery masks.
\<close>

record cache_locals =
  mode_l :: dc_divemode_t
  ngasmixes_l :: nat
  oxygen_l :: "nat list"
  helium_l :: "nat list"
  o2_previous :: nat
  he_previous :: nat
  t1_battery :: nat
  t2_battery :: nat

definition cache_locals_init :: cache_locals where
  "cache_locals_init =
     \<lparr> mode_l = DC_DIVEMODE_OC, ngasmixes_l = 0,
       oxygen_l = replicate NGASMIXES 0, helium_l = replicate NGASMIXES 0,
       o2_previous = 0, he_previous = 0, t1_battery = 0, t2_battery = 0 \<rparr>"

text \<open>
  Lines 461-492: the format (PNF or legacy), the header and footer sizes and, for
  the legacy format, the record offsets. The result is \<open>(pnf, headersize, footersize)\<close>
  and the parser, whose \<open>final\<close>, \<open>opening\<close> and \<open>closing\<close> fields the legacy branch sets.
\<close>

definition cache_format :: "shearwater_predator_parser_t \<Rightarrow> dc_status_t + (nat \<times> nat \<times> nat \<times> shearwater_predator_parser_t)" where
  "cache_format parser =
     (let data = base_data parser; size = length data in
      rbind (if petrel parser \<noteq> 0
             then rbind (array_uint16_be data 0) (\<lambda>w. Inr (if w \<noteq> 0xFFFF then 1 else 0))
             else Inr 0) (\<lambda>pnf_v.
      if pnf_v = 0 then
        (let headersize_v = SZ_BLOCK; footersize_v = SZ_BLOCK in
         if size < headersize_v + footersize_v then Inl DC_STATUS_DATAFORMAT
         else
           rbind (if petrel parser \<noteq> 0 then Inr True
                  else rbind (array_uint16_be data (size - footersize_v)) (\<lambda>w. Inr (w = 0xFFFD))) (\<lambda>final_block.
           if final_block then
             (let footersize_v = footersize_v + SZ_BLOCK in
              if size < headersize_v + footersize_v then Inl DC_STATUS_DATAFORMAT
              else Inr (pnf_v, headersize_v, footersize_v,
                        parser \<lparr> final := size - SZ_BLOCK,
                                 opening := replicate NRECORDS 0,
                                 closing := replicate NRECORDS (size - footersize_v) \<rparr>))
           else Inr (pnf_v, headersize_v, footersize_v,
                     parser \<lparr> opening := replicate NRECORDS 0,
                              closing := replicate NRECORDS (size - footersize_v) \<rparr>)))
      else Inr (pnf_v, 0, 0, parser)))"

text \<open>
  Lines 526-550: a gas change. The mix is looked up in the table built so far and
  appended when it is not there; with the table full the pass fails.
\<close>

definition cache_gaschange :: "cache_locals \<Rightarrow> nat \<Rightarrow> nat \<Rightarrow> dc_status_t + cache_locals" where
  "cache_gaschange l o2 he =
     (if o2 \<noteq> o2_previous l \<or> he \<noteq> he_previous l then
        (let idx = find_gasmix_from (oxygen_l l) (helium_l l) (ngasmixes_l l) o2 he 0 in
         if idx \<ge> ngasmixes_l l then
           (if idx \<ge> NGASMIXES then Inl DC_STATUS_NOMEMORY
            else Inr (l \<lparr> oxygen_l := (oxygen_l l)[idx := o2],
                          helium_l := (helium_l l)[idx := he],
                          ngasmixes_l := idx + 1,
                          o2_previous := o2, he_previous := he \<rparr>))
         else Inr (l \<lparr> o2_previous := o2, he_previous := he \<rparr>))
      else Inr l)"

text \<open>
  Lines 519-555: a dive sample in the sweep. The status flags set the dive mode, a
  gas change is registered, and the two transmitter battery states are accumulated.
\<close>

definition cache_dive_sample :: "byte list \<Rightarrow> nat \<Rightarrow> nat \<Rightarrow> cache_locals \<Rightarrow> dc_status_t + cache_locals" where
  "cache_dive_sample data pnf_v offset l =
     rbind (u8 data (offset + 11 + pnf_v)) (\<lambda>status.
     let l1 = (if status AND OC = 0 then l \<lparr> mode_l := DC_DIVEMODE_CCR \<rparr> else l) in
     rbind (u8 data (offset + 7 + pnf_v)) (\<lambda>o2.
     rbind (u8 data (offset + 8 + pnf_v)) (\<lambda>he.
     rbind (cache_gaschange l1 o2 he) (\<lambda>l2.
     rbind (battery_state data (offset + 27 + pnf_v)) (\<lambda>b1.
     rbind (battery_state data (offset + 19 + pnf_v)) (\<lambda>b2.
     Inr (l2 \<lparr> t1_battery := t1_battery l2 OR b1,
                 t2_battery := t2_battery l2 OR b2 \<rparr>)))))))"

text \<open>
  Lines 509-568: the body of the sweep for the record at \<open>offset\<close>. The arrays
  \<open>opening\<close> and \<open>closing\<close> have \<open>NRECORDS\<close> = 7 slots, and the record types
  \<open>LOG_RECORD_OPENING_7\<close> and \<open>LOG_RECORD_CLOSING_7\<close> index slot 7: a write outside the
  array.
\<close>

definition cache_record :: "nat \<Rightarrow> nat \<Rightarrow> shearwater_predator_parser_t \<times> cache_locals \<Rightarrow> dc_status_t + shearwater_predator_parser_t \<times> cache_locals" where
  "cache_record pnf_v offset s =
     (let parser = fst s; l = snd s; data = base_data parser in
      rbind (array_isequal data offset (samplesize parser) 0x00) (\<lambda>empty.
      if empty then Inr s
      else
        rbind (record_type data pnf_v offset) (\<lambda>type.
        if type = LOG_RECORD_DIVE_SAMPLE then
          rbind (cache_dive_sample data pnf_v offset l) (\<lambda>l'. Inr (parser, l'))
        else if type = LOG_RECORD_FREEDIVE_SAMPLE then
          Inr (parser, l \<lparr> mode_l := DC_DIVEMODE_FREEDIVE \<rparr>)
        else if type \<ge> LOG_RECORD_OPENING_0 \<and> type \<le> LOG_RECORD_OPENING_7 then
          (if type - LOG_RECORD_OPENING_0 < NRECORDS
           then Inr (parser \<lparr> opening := (opening parser)[type - LOG_RECORD_OPENING_0 := offset] \<rparr>, l)
           else Inl OUT_OF_BOUNDS)
        else if type \<ge> LOG_RECORD_CLOSING_0 \<and> type \<le> LOG_RECORD_CLOSING_7 then
          (if type - LOG_RECORD_CLOSING_0 < NRECORDS
           then Inr (parser \<lparr> closing := (closing parser)[type - LOG_RECORD_CLOSING_0 := offset] \<rparr>, l)
           else Inl OUT_OF_BOUNDS)
        else if type = LOG_RECORD_FINAL then
          Inr (parser \<lparr> final := offset \<rparr>, l)
        else Inr s)))"

text \<open>
  Lines 506-571: the sweep, \<^verbatim>\<open>while (offset + parser->samplesize <= length)\<close>. It
  returns the status and the state at the return. \<open>samplesize\<close> is 16 or 32 in every
  parser the create functions build; the guard \<open>0 < samplesize\<close> only makes the model
  total for a record that was not built by them.
\<close>

function cache_loop :: "nat \<Rightarrow> nat \<Rightarrow> nat \<Rightarrow> shearwater_predator_parser_t \<times> cache_locals \<Rightarrow> dc_status_t \<times> shearwater_predator_parser_t \<times> cache_locals" where
  "cache_loop pnf_v length_v offset s =
     (if offset + samplesize (fst s) \<le> length_v \<and> 0 < samplesize (fst s) then
        (case cache_record pnf_v offset s of
           Inl e \<Rightarrow> (e, s)
         | Inr s' \<Rightarrow> cache_loop pnf_v length_v (offset + samplesize (fst s)) s')
      else (DC_STATUS_SUCCESS, s))"
  by pat_completeness auto
termination
  by (relation "measure (\<lambda>(pnf_v, length_v, offset, s). length_v - offset)") auto

declare cache_loop.simps [simp del]

text \<open>Lines 573-579: is one of the required records 0..4 missing?\<close>

definition cache_record_missing :: "shearwater_predator_parser_t \<Rightarrow> bool" where
  "cache_record_missing parser =
     list_ex (\<lambda>i. opening parser ! i = UNDEFINED \<or> closing parser ! i = UNDEFINED) [0..<NRECORDS - 2]"

text \<open>
  Lines 595-614: one round of the calibration loop, for sensor \<open>i\<close>. The state is the
  parser with the counters \<open>nsensors\<close> and \<open>ndefaults\<close>.
\<close>

definition cache_calibration_step :: "nat \<Rightarrow> nat \<Rightarrow> shearwater_predator_parser_t \<times> nat \<times> nat \<Rightarrow> dc_status_t + shearwater_predator_parser_t \<times> nat \<times> nat" where
  "cache_calibration_step base_v i s =
     (case s of (parser, nsensors, ndefaults) \<Rightarrow>
        (let data = base_data parser in
         rbind (array_uint16_be data (base_v + 1 + i * 2)) (\<lambda>calibration_v.
         let parser1 = parser \<lparr> calibration := (calibration parser)[i := calibration_v] \<rparr>;
             parser2 = (if model parser1 = PREDATOR
                        then add_string_fmt parser1 (''O2 Sensor Calibration '' @ [char_of (48 + i)])
                               ''%d %s'' [ArgN calibration_v, ArgS ''mV'']
                        else parser1) in
         rbind (u8 data base_v) (\<lambda>enabled.
         if enabled AND push_bit i 1 \<noteq> 0
         then Inr (parser2, nsensors + 1, (if calibration_v = 2100 then ndefaults + 1 else ndefaults))
         else Inr (parser2, nsensors, ndefaults)))))"

fun cache_calibration :: "nat \<Rightarrow> nat list \<Rightarrow> shearwater_predator_parser_t \<times> nat \<times> nat \<Rightarrow> dc_status_t + shearwater_predator_parser_t \<times> nat \<times> nat" where
  "cache_calibration base_v [] s = Inr s"
| "cache_calibration base_v (i # rest) s =
     rbind (cache_calibration_step base_v i s) (cache_calibration base_v rest)"

text \<open>\<^verbatim>\<open>add_deco_model\<close>\<close>

definition add_deco_model :: "shearwater_predator_parser_t \<Rightarrow> dc_status_t + shearwater_predator_parser_t" where
  "add_deco_model parser =
     (let data = base_data parser;
          idx_deco_model = (if pnf parser \<noteq> 0 then opening parser ! 2 + 18 else 67);
          idx_gfs = (if pnf parser \<noteq> 0 then opening parser ! 3 + 5 else 85) in
      rbind (u8 data idx_deco_model) (\<lambda>m.
      if m = 0 then
        rbind (u8 data 4) (\<lambda>a.
        rbind (u8 data 5) (\<lambda>b.
        Inr (add_string_fmt parser ''Deco model'' ''GF %u/%u'' [ArgN a, ArgN b])))
      else if m = 1 then
        rbind (u8 data (idx_deco_model + 1)) (\<lambda>a.
        Inr (add_string_fmt parser ''Deco model'' ''VPM-B +%u'' [ArgN a]))
      else if m = 2 then
        rbind (u8 data (idx_deco_model + 1)) (\<lambda>a.
        rbind (u8 data idx_gfs) (\<lambda>b.
        Inr (add_string_fmt parser ''Deco model'' ''VPM-B/GFS +%u %u%%'' [ArgN a, ArgN b])))
      else Inr (add_string_fmt parser ''Deco model'' ''Unknown model %d'' [ArgN m])))"

text \<open>\<^verbatim>\<open>add_battery_type\<close>\<close>

definition add_battery_type :: "shearwater_predator_parser_t \<Rightarrow> dc_status_t + shearwater_predator_parser_t" where
  "add_battery_type parser =
     (if logversion parser < 7 then Inr parser
      else
        (let data = base_data parser;
             idx_battery_type = (if pnf parser \<noteq> 0 then opening parser ! 4 + 9 else 120) in
         rbind (u8 data idx_battery_type) (\<lambda>t.
         Inr (if t = 1 then add_string parser ''Battery type'' (Literal ''1.5V Alkaline'')
              else if t = 2 then add_string parser ''Battery type'' (Literal ''1.5V Lithium'')
              else if t = 3 then add_string parser ''Battery type'' (Literal ''1.2V NiMH'')
              else if t = 4 then add_string parser ''Battery type'' (Literal ''3.6V Saft'')
              else if t = 5 then add_string parser ''Battery type'' (Literal ''3.7V Li-Ion'')
              else add_string_fmt parser ''Battery type'' ''unknown type %d'' [ArgN t]))))"

text \<open>
  Lines 592-629: the sensor calibration. The three calibration values are cached,
  and the byte of enabled sensors is stored in \<open>calibrated\<close>, whether or not every
  enabled sensor still has the default calibration; only the descriptive string
  differs.
\<close>

definition cache_sensors :: "nat \<Rightarrow> dc_divemode_t \<Rightarrow> shearwater_predator_parser_t \<Rightarrow> dc_status_t + shearwater_predator_parser_t" where
  "cache_sensors pnf_v mode_v parser =
     (let data = base_data parser;
          base_v = opening parser ! 3 + (if pnf_v \<noteq> 0 then 6 else 86) in
      rbind (cache_calibration base_v [0, 1, 2] (parser, 0, 0)) (\<lambda>(parser2, nsensors, ndefaults).
      rbind (u8 data base_v) (\<lambda>enabled.
      Inr (if nsensors \<noteq> 0 \<and> nsensors = ndefaults then
             (let q = parser2 \<lparr> calibrated := enabled \<rparr> in
              if mode_v \<noteq> DC_DIVEMODE_OC
              then add_string q ''PPO2 source'' (Literal ''voted/averaged'') else q)
           else
             (let q = parser2 \<lparr> calibrated := enabled \<rparr> in
              if mode_v \<noteq> DC_DIVEMODE_OC
              then add_string q ''PPO2 source'' (Literal ''cells'') else q)))))"

text \<open>
  Lines 647-654: the descriptive strings that follow the cached fields; \<open>t1\<close> and
  \<open>t2\<close> are the transmitter battery masks.
\<close>

definition cache_strings :: "shearwater_predator_parser_t \<Rightarrow> nat \<Rightarrow> nat \<Rightarrow> dc_status_t + shearwater_predator_parser_t" where
  "cache_strings parser t1 t2 =
     (let data = base_data parser;
          parser6 = add_string_fmt parser ''Serial'' ''%08x'' [ArgN (serial parser)] in
      rbind (u8 data 19) (\<lambda>fw.
      let parser7 = add_string_fmt parser6 ''FW Version'' ''%2x'' [ArgN fw] in
      rbind (add_deco_model parser7) (\<lambda>parser8.
      rbind (add_battery_type parser8) (\<lambda>parser9.
      rbind (u8 data 9) (\<lambda>battery.
      let parser10 = add_string_fmt parser9 ''Battery at end'' ''%.1f V'' [ArgN battery];
          parser11 = add_battery_info parser10 ''T1 battery'' t1;
          parser12 = add_battery_info parser11 ''T2 battery'' t2
      in Inr parser12)))))"

text \<open>
  Lines 573-656: after the sweep. The required records are verified, then the log
  version, the calibration, the cached fields and the descriptive strings are derived
  and the cache is marked as populated.
\<close>

definition cache_finish :: "nat \<Rightarrow> nat \<Rightarrow> nat \<Rightarrow> shearwater_predator_parser_t \<times> cache_locals \<Rightarrow> dc_status_t + shearwater_predator_parser_t" where
  "cache_finish pnf_v headersize_v footersize_v s =
     (let parser = fst s; l = snd s; data = base_data parser in
      if cache_record_missing parser then Inl DC_STATUS_DATAFORMAT
      else
        rbind (u8 data (opening parser ! 4 + (if pnf_v \<noteq> 0 then 16 else 127))) (\<lambda>logversion_v.
        let parser1 = add_string_fmt parser ''Logversion'' ''%d%s''
                        [ArgN logversion_v, ArgS (if pnf_v \<noteq> 0 then ''(PNF)'' else [])];
            t1 = (if logversion_v < 7 then 0 else t1_battery l);
            t2 = (if logversion_v < 7 then 0 else t2_battery l) in
        rbind (cache_sensors pnf_v (mode_l l) parser1) (\<lambda>parser3.
        let n = ngasmixes_l l;
            parser4 = parser3 \<lparr> pnf := pnf_v, logversion := logversion_v,
                        headersize := headersize_v, footersize := footersize_v,
                        ngasmixes := n,
                        oxygen := take n (oxygen_l l) @ drop n (oxygen parser3),
                        helium := take n (helium_l l) @ drop n (helium parser3),
                        mode := mode_l l \<rparr> in
        rbind (u8 data (opening parser4 ! 0 + 8)) (\<lambda>units_v.
        rbind (array_uint16_be data (opening parser4 ! 1 + (if pnf parser4 \<noteq> 0 then 16 else 47))) (\<lambda>atmospheric_v.
        rbind (array_uint16_be data (opening parser4 ! 3 + (if pnf parser4 \<noteq> 0 then 3 else 83))) (\<lambda>density_v.
        let parser5 = parser4 \<lparr> units := units_v, atmospheric := atmospheric_v,
                                 density := density_v, cached := 1 \<rparr>
        in cache_strings parser5 t1 t2))))))"

text \<open>
  \<^verbatim>\<open>shearwater_predator_parser_cache\<close>. The result is the status and the parser as the
  call leaves it. The \<^verbatim>\<open>memset\<close> of the strings comes first; the sweep writes
  \<open>opening\<close>, \<open>closing\<close> and \<open>final\<close> of the parser itself, so a failing pass leaves them
  changed. After \<open>OUT_OF_BOUNDS\<close> the parser returned has no meaning.
\<close>

definition shearwater_predator_parser_cache :: "shearwater_predator_parser_t \<Rightarrow> dc_status_t \<times> shearwater_predator_parser_t" where
  "shearwater_predator_parser_cache parser =
     (if cached parser \<noteq> 0 then (DC_STATUS_SUCCESS, parser)
      else
        (let parser0 = parser \<lparr> strings := [] \<rparr>; size = length (base_data parser0) in
         if size < 2 then (DC_STATUS_DATAFORMAT, parser0)
         else
           (case cache_format parser0 of
              Inl e \<Rightarrow> (e, parser0)
            | Inr (pnf_v, headersize_v, footersize_v, parser1) \<Rightarrow>
                (case cache_loop pnf_v (size - footersize_v) headersize_v (parser1, cache_locals_init) of
                   (rc, s) \<Rightarrow>
                     if rc \<noteq> DC_STATUS_SUCCESS then (rc, fst s)
                     else
                       (case cache_finish pnf_v headersize_v footersize_v s of
                          Inl e \<Rightarrow> (e, fst s)
                        | Inr parser2 \<Rightarrow> (DC_STATUS_SUCCESS, parser2))))))"

subsection \<open>The field accessor\<close>

text \<open>
  \<open>dc_field_type_t\<close>: the kinds the accessor handles, and \<open>DC_FIELD_OTHER\<close> for
  every other value of the enumeration (it is declared in \<^verbatim>\<open>parser.h\<close>, which is not
  part of the sources at hand).
\<close>

datatype dc_field_type_t =
    DC_FIELD_DIVETIME
  | DC_FIELD_MAXDEPTH
  | DC_FIELD_GASMIX_COUNT
  | DC_FIELD_GASMIX
  | DC_FIELD_SALINITY
  | DC_FIELD_ATMOSPHERIC
  | DC_FIELD_DIVEMODE
  | DC_FIELD_STRING
  | DC_FIELD_OTHER nat

datatype dc_water_t = DC_WATER_FRESH | DC_WATER_SALT

text \<open>
  What the accessor writes through \<^verbatim>\<open>value\<close>. The floating-point results are kept as
  their integer operands: \<open>Field_maxdepth raw units pnf\<close> stands for
  \<open>raw * (FEET if imperial) / (10 if pnf)\<close>, \<open>Field_gasmix o2 he\<close> for the fractions
  \<open>o2/100\<close>, \<open>he/100\<close> and \<open>1 - o2/100 - he/100\<close>, \<open>Field_atmospheric raw\<close> for \<open>raw/1000\<close>.
\<close>

datatype field_value =
    Field_uint nat
  | Field_maxdepth nat nat nat
  | Field_gasmix nat nat
  | Field_salinity dc_water_t nat
  | Field_atmospheric nat
  | Field_divemode dc_divemode_t
  | Field_string dc_field_string_t

text \<open>Lines 675-724: the \<^verbatim>\<open>switch\<close>, run when \<^verbatim>\<open>value\<close> is not NULL.\<close>

definition get_field_switch :: "shearwater_predator_parser_t \<Rightarrow> dc_field_type_t \<Rightarrow> nat \<Rightarrow> dc_status_t + field_value" where
  "get_field_switch parser type flags =
     (let data = base_data parser in
      case type of
        DC_FIELD_DIVETIME \<Rightarrow>
          (if pnf parser \<noteq> 0
           then rbind (array_uint24_be data (closing parser ! 0 + 6)) (\<lambda>v. Inr (Field_uint v))
           else rbind (array_uint16_be data (closing parser ! 0 + 6)) (\<lambda>v. Inr (Field_uint (v * 60))))
      | DC_FIELD_MAXDEPTH \<Rightarrow>
          rbind (array_uint16_be data (closing parser ! 0 + 4)) (\<lambda>v.
          Inr (Field_maxdepth v (units parser) (pnf parser)))
      | DC_FIELD_GASMIX_COUNT \<Rightarrow> Inr (Field_uint (ngasmixes parser))
      | DC_FIELD_GASMIX \<Rightarrow>
          (if flags < NGASMIXES then Inr (Field_gasmix (oxygen parser ! flags) (helium parser ! flags))
           else Inl OUT_OF_BOUNDS)
      | DC_FIELD_SALINITY \<Rightarrow>
          Inr (Field_salinity (if density parser = 1000 then DC_WATER_FRESH else DC_WATER_SALT)
                 (density parser))
      | DC_FIELD_ATMOSPHERIC \<Rightarrow> Inr (Field_atmospheric (atmospheric parser))
      | DC_FIELD_DIVEMODE \<Rightarrow> Inr (Field_divemode (mode parser))
      | DC_FIELD_STRING \<Rightarrow>
          (if flags < MAXSTRINGS \<and> flags < length (strings parser)
           then Inr (Field_string (strings parser ! flags))
           else Inl DC_STATUS_UNSUPPORTED)
      | DC_FIELD_OTHER k \<Rightarrow> Inl DC_STATUS_UNSUPPORTED)"

text \<open>
  \<^verbatim>\<open>shearwater_predator_parser_get_field\<close>. \<open>value_given\<close> says whether the pointer
  \<^verbatim>\<open>value\<close> is not NULL. The result is the status, the parser after the call (the cache
  may have been filled) and what was written through \<^verbatim>\<open>value\<close>, if anything.
\<close>

definition shearwater_predator_parser_get_field :: "shearwater_predator_parser_t \<Rightarrow> dc_field_type_t \<Rightarrow> nat \<Rightarrow> bool \<Rightarrow> dc_status_t \<times> shearwater_predator_parser_t \<times> field_value option" where
  "shearwater_predator_parser_get_field parser type flags value_given =
     (case shearwater_predator_parser_cache parser of
        (rc, parser1) \<Rightarrow>
          if rc \<noteq> DC_STATUS_SUCCESS then (rc, parser1, None)
          else if value_given then
            (case get_field_switch parser1 type flags of
               Inl e \<Rightarrow> (e, parser1, None)
             | Inr v \<Rightarrow> (DC_STATUS_SUCCESS, parser1, Some v))
          else (DC_STATUS_SUCCESS, parser1, None))"

subsection \<open>The sample replay\<close>

text \<open>
  The samples handed to the callback, in the order of the calls. The model is the
  replay with a callback given. Floating-point payloads are kept as their integer
  operands:
  \<^item> \<open>Depth_tenths raw units\<close> is \<open>raw / 10.0\<close>, times \<open>FEET\<close> when imperial;
    \<open>Depth_pressure diff density\<close> is the freedive depth
    \<open>diff * (BAR / 1000.0) / (density * GRAVITY)\<close>;
  \<open>Temperature_byte t units\<close> is \<open>t\<close>, converted from Fahrenheit when imperial;
    \<open>Temperature_tenths t\<close> is \<open>t / 10.0\<close>;
  \<^item> \<open>DC_SAMPLE_PPO2 raw None\<close> is \<open>raw / 100.0\<close> and \<open>DC_SAMPLE_PPO2 raw (Some c)\<close> is
    \<open>raw\<close> times the calibration factor of raw value \<open>c\<close>;
  \<^item> \<open>DC_SAMPLE_SETPOINT raw\<close> and \<open>DC_SAMPLE_CNS raw\<close> are \<open>raw / 100.0\<close>;
  \<^item> \<open>DC_SAMPLE_DECO type depth units time\<close> has the stop depth \<open>depth\<close>, times \<open>FEET\<close> when
    imperial;
  \<^item> \<open>DC_SAMPLE_PRESSURE tank p\<close> is \<open>p * 2 * PSI / BAR\<close>;
  \<^item> \<open>DC_SAMPLE_EVENT time t heading\<close> is the bookmark event with
    \<open>flags = t << SAMPLE_FLAGS_TYPE_SHIFT\<close> (a macro of \<^verbatim>\<open>parser.h\<close>, which is not part of
    the sources at hand).
\<close>

datatype depth_value = Depth_tenths nat nat | Depth_pressure nat nat

datatype temperature_value = Temperature_byte int nat | Temperature_tenths int

datatype dc_deco_type_t = DC_DECO_NDL | DC_DECO_DECOSTOP

datatype dc_sample_t =
    DC_SAMPLE_TIME nat
  | DC_SAMPLE_DEPTH depth_value
  | DC_SAMPLE_TEMPERATURE temperature_value
  | DC_SAMPLE_PPO2 nat "nat option"
  | DC_SAMPLE_SETPOINT nat
  | DC_SAMPLE_CNS nat
  | DC_SAMPLE_GASMIX nat
  | DC_SAMPLE_DECO dc_deco_type_t nat nat nat
  | DC_SAMPLE_PRESSURE nat nat
  | DC_SAMPLE_RBT nat
  | DC_SAMPLE_EVENT nat nat nat

text \<open>Subtraction of two \<^verbatim>\<open>unsigned int\<close> values: it wraps around.\<close>

definition usub32 :: "nat \<Rightarrow> nat \<Rightarrow> nat" where
  "usub32 a b = (a mod 2 ^ 32 + 2 ^ 32 - b mod 2 ^ 32) mod 2 ^ 32"

text \<open>
  Lines 823-830: the temperature of a dive sample before the unit conversion, from
  the byte read as a \<^verbatim>\<open>signed char\<close>.
\<close>

definition sample_temperature :: "byte \<Rightarrow> int" where
  "sample_temperature b =
     (let temperature = sint b in
      if temperature < 0 then
        (let temperature = temperature + 102 in
         if temperature > 0 then 0 else temperature)
      else temperature)"

text \<open>Lines 746-756: the sample interval, in seconds.\<close>

definition sample_interval :: "shearwater_predator_parser_t \<Rightarrow> dc_status_t + nat" where
  "sample_interval parser =
     (if pnf parser \<noteq> 0 \<and> logversion parser \<ge> 9 then
        rbind (array_uint16_be (base_data parser) (opening parser ! 5 + 23)) (\<lambda>interval.
        if interval mod 1000 \<noteq> 0 then Inl DC_STATUS_DATAFORMAT
        else Inr (interval div 1000))
      else Inr 10)"

text \<open>
  The local variables of \<^verbatim>\<open>shearwater_predator_parser_samples_foreach\<close> that the
  replay updates, and the samples emitted so far.
\<close>

record samples_locals =
  time_s :: nat
  o2_previous_s :: nat
  he_previous_s :: nat
  emitted :: "dc_sample_t list"

datatype control = Continue | Break | Fail dc_status_t

definition on_read :: "samples_locals \<Rightarrow> dc_status_t + 'a \<Rightarrow> ('a \<Rightarrow> control \<times> samples_locals) \<Rightarrow> control \<times> samples_locals" where
  "on_read st m f = (case m of Inl e \<Rightarrow> (Fail e, st) | Inr x \<Rightarrow> f x)"

text \<open>
  Lines 809-876 of a dive sample, for the elapsed time \<open>time_v\<close>: time, depth,
  temperature, ppO2 and setpoint (closed circuit only), CNS (Petrel only).
\<close>

definition sample_head :: "shearwater_predator_parser_t \<Rightarrow> nat \<Rightarrow> nat \<Rightarrow> nat \<Rightarrow> dc_status_t + dc_sample_t list" where
  "sample_head parser pnf_v offset time_v =
     (let data = base_data parser in
      rbind (array_uint16_be data (pnf_v + offset)) (\<lambda>depth.
      rbind (u8 data (offset + pnf_v + 13)) (\<lambda>temperature_raw.
      rbind (u8 data (offset + pnf_v + 11)) (\<lambda>status.
      rbind (if status AND OC = 0 then
               rbind (if status AND PPO2_EXTERNAL = 0 then
                        (if calibrated parser = 0 then
                           rbind (u8 data (offset + pnf_v + 6)) (\<lambda>v. Inr [DC_SAMPLE_PPO2 v None])
                         else
                           rbind (u8 data (offset + pnf_v + 12)) (\<lambda>c0.
                           rbind (u8 data (offset + pnf_v + 14)) (\<lambda>c1.
                           rbind (u8 data (offset + pnf_v + 15)) (\<lambda>c2.
                           Inr ((if calibrated parser AND 0x01 \<noteq> 0
                                 then [DC_SAMPLE_PPO2 c0 (Some (calibration parser ! 0))] else []) @
                                (if calibrated parser AND 0x02 \<noteq> 0
                                 then [DC_SAMPLE_PPO2 c1 (Some (calibration parser ! 1))] else []) @
                                (if calibrated parser AND 0x04 \<noteq> 0
                                 then [DC_SAMPLE_PPO2 c2 (Some (calibration parser ! 2))] else []))))))
                      else Inr []) (\<lambda>ppo2.
               rbind (if petrel parser \<noteq> 0 then u8 data (offset + pnf_v + 18)
                      else if status AND SETPOINT_HIGH \<noteq> 0 then u8 data 18
                      else u8 data 17) (\<lambda>setpoint.
               Inr (ppo2 @ [DC_SAMPLE_SETPOINT setpoint])))
             else Inr []) (\<lambda>closed_circuit.
      rbind (if petrel parser \<noteq> 0
             then rbind (u8 data (offset + pnf_v + 22)) (\<lambda>cns. Inr [DC_SAMPLE_CNS cns])
             else Inr []) (\<lambda>cns.
      Inr ([DC_SAMPLE_TIME time_v,
            DC_SAMPLE_DEPTH (Depth_tenths depth (units parser)),
            DC_SAMPLE_TEMPERATURE
              (Temperature_byte (sample_temperature (of_nat temperature_raw)) (units parser))]
           @ closed_circuit @ cns)))))))"

text \<open>
  Lines 878-892: a gas change. The result is the new previous mix and the sample
  emitted, if any.
\<close>

definition sample_gaschange :: "shearwater_predator_parser_t \<Rightarrow> nat \<Rightarrow> nat \<Rightarrow> nat \<Rightarrow> nat \<Rightarrow> dc_status_t + (nat \<times> nat) \<times> dc_sample_t list" where
  "sample_gaschange parser o2 he o2_prev he_prev =
     (if o2 \<noteq> o2_prev \<or> he \<noteq> he_prev then
        (let idx = shearwater_predator_find_gasmix parser o2 he in
         if idx \<ge> ngasmixes parser then Inl DC_STATUS_DATAFORMAT
         else Inr ((o2, he), [DC_SAMPLE_GASMIX idx]))
      else Inr ((o2_prev, he_prev), []))"

text \<open>Lines 894-947: deco stop or NDL, tank pressures and remaining bottom time.\<close>

definition sample_tail :: "shearwater_predator_parser_t \<Rightarrow> nat \<Rightarrow> nat \<Rightarrow> dc_status_t + dc_sample_t list" where
  "sample_tail parser pnf_v offset =
     (let data = base_data parser in
      rbind (array_uint16_be data (offset + pnf_v + 2)) (\<lambda>decostop.
      rbind (u8 data (offset + pnf_v + 9)) (\<lambda>tts.
      let deco = (if decostop \<noteq> 0
                  then DC_SAMPLE_DECO DC_DECO_DECOSTOP decostop (units parser) (tts * 60)
                  else DC_SAMPLE_DECO DC_DECO_NDL 0 (units parser) (tts * 60)) in
      if logversion parser \<ge> 7 then
        rbind (array_uint16_be data (offset + pnf_v + 27)) (\<lambda>pressure0.
        rbind (array_uint16_be data (offset + pnf_v + 19)) (\<lambda>pressure1.
        rbind (u8 data (offset + pnf_v + 21)) (\<lambda>rbt.
        Inr ([deco]
             @ (if pressure0 < 0xFFF0 then [DC_SAMPLE_PRESSURE 0 (pressure0 AND 0x0FFF)] else [])
             @ (if pressure1 < 0xFFF0 then [DC_SAMPLE_PRESSURE 1 (pressure1 AND 0x0FFF)] else [])
             @ (if rbt < 0xF0 then [DC_SAMPLE_RBT rbt] else [])))))
      else Inr [deco])))"

text \<open>
  Lines 948-975: a freedive record, the sub-samples \<open>i\<close> of the list in turn; an
  all-zero sub-sample ends the record. The result is the elapsed time and the samples.
\<close>

fun sample_freedive :: "shearwater_predator_parser_t \<Rightarrow> nat \<Rightarrow> nat \<Rightarrow> nat list \<Rightarrow> nat \<Rightarrow> dc_status_t + nat \<times> dc_sample_t list" where
  "sample_freedive parser interval offset [] time_v = Inr (time_v, [])"
| "sample_freedive parser interval offset (i # rest) time_v =
     (let data = base_data parser; idx = offset + i * SZ_SAMPLE_FREEDIVE in
      rbind (array_isequal data idx SZ_SAMPLE_FREEDIVE 0x00) (\<lambda>empty.
      if empty then Inr (time_v, [])
      else
        (let t = time_v + interval in
         rbind (array_uint16_be data (idx + 1)) (\<lambda>depth.
         rbind (array_uint16_be data (idx + 3)) (\<lambda>temperature_raw.
         rbind (sample_freedive parser interval offset rest t) (\<lambda>(t', more).
         Inr (t', [DC_SAMPLE_TIME t,
                   DC_SAMPLE_DEPTH (Depth_pressure (usub32 depth (atmospheric parser)) (density parser)),
                   DC_SAMPLE_TEMPERATURE (Temperature_tenths (sint (of_nat temperature_raw :: 16 word)))]
                  @ more)))))))"

text \<open>Lines 768-793: an info event of the PNF format; a tag becomes a bookmark.\<close>

definition sample_info_event :: "shearwater_predator_parser_t \<Rightarrow> nat \<Rightarrow> dc_status_t + dc_sample_t list" where
  "sample_info_event parser offset =
     (let data = base_data parser in
      rbind (u8 data (offset + 1)) (\<lambda>event_id.
      rbind (array_uint32_be data (offset + 4)) (\<lambda>event_time.
      rbind (array_uint32_be data (offset + 8)) (\<lambda>tag_heading.
      rbind (array_uint32_be data (offset + 12)) (\<lambda>tag_type.
      if event_id = INFO_EVENT_TAG_LOG then
        rbind (array_uint32_be data (opening parser ! 0 + 12)) (\<lambda>start.
        let tag_time = usub32 event_time start in
        if tag_heading \<le> 360 \<and> tag_type \<le> 5
        then Inr [DC_SAMPLE_EVENT tag_time (tag_type + 1) tag_heading]
        else Inr [])
      else Inr [])))))"

text \<open>
  Lines 808-947: a dive sample in the replay. A failure leaves the samples emitted
  before it in the state.
\<close>

definition samples_dive_sample :: "shearwater_predator_parser_t \<Rightarrow> nat \<Rightarrow> nat \<Rightarrow> samples_locals \<Rightarrow> control \<times> samples_locals" where
  "samples_dive_sample parser interval offset st =
     (let data = base_data parser; pnf_v = pnf parser; time_v = time_s st + interval in
      on_read st (sample_head parser pnf_v offset time_v) (\<lambda>head.
      let st1 = st \<lparr> time_s := time_v, emitted := emitted st @ head \<rparr> in
      on_read st1 (u8 data (offset + pnf_v + 7)) (\<lambda>o2.
      on_read st1 (u8 data (offset + pnf_v + 8)) (\<lambda>he.
      on_read st1 (sample_gaschange parser o2 he (o2_previous_s st1) (he_previous_s st1)) (\<lambda>(prev, gasmix).
      let st2 = st1 \<lparr> o2_previous_s := fst prev, he_previous_s := snd prev,
                      emitted := emitted st1 @ gasmix \<rparr> in
      on_read st2 (sample_tail parser pnf_v offset) (\<lambda>tail.
      (Continue, st2 \<lparr> emitted := emitted st2 @ tail \<rparr>)))))))"

text \<open>Lines 762-977: the body of the replay loop for the record at \<open>offset\<close>.\<close>

definition samples_record :: "shearwater_predator_parser_t \<Rightarrow> nat \<Rightarrow> nat \<Rightarrow> samples_locals \<Rightarrow> control \<times> samples_locals" where
  "samples_record parser interval offset st =
     (let data = base_data parser; pnf_v = pnf parser in
      on_read st (record_type data pnf_v offset) (\<lambda>type.
      on_read st (if pnf_v \<noteq> 0 \<and> type = LOG_RECORD_FINAL then u8 data (offset + 1) else Inr 0) (\<lambda>marker.
      if pnf_v \<noteq> 0 \<and> type = LOG_RECORD_FINAL \<and> marker = 0xFD then (Break, st)
      else if pnf_v \<noteq> 0 \<and> type = LOG_RECORD_INFO_EVENT then
        on_read st (sample_info_event parser offset) (\<lambda>events.
        (Continue, st \<lparr> emitted := emitted st @ events \<rparr>))
      else if pnf_v \<noteq> 0 \<and> type \<noteq> LOG_RECORD_DIVE_SAMPLE then (Continue, st)
      else
        on_read st (array_isequal data offset (samplesize parser) 0x00) (\<lambda>empty.
        if empty then (Continue, st)
        else if type = LOG_RECORD_DIVE_SAMPLE then samples_dive_sample parser interval offset st
        else if type = LOG_RECORD_FREEDIVE_SAMPLE then
          on_read st (sample_freedive parser interval offset [0, 1, 2, 3] (time_s st)) (\<lambda>(t, samples).
          (Continue, st \<lparr> time_s := t, emitted := emitted st @ samples \<rparr>))
        else (Continue, st)))))"

text \<open>
  Lines 758-978: the replay loop. As in the cache sweep, the guard \<open>0 < samplesize\<close>
  only makes the model total.
\<close>

function samples_loop :: "shearwater_predator_parser_t \<Rightarrow> nat \<Rightarrow> nat \<Rightarrow> nat \<Rightarrow> samples_locals \<Rightarrow> dc_status_t \<times> samples_locals" where
  "samples_loop parser interval length_v offset st =
     (if offset + samplesize parser \<le> length_v \<and> 0 < samplesize parser then
        (case samples_record parser interval offset st of
           (Continue, st') \<Rightarrow> samples_loop parser interval length_v (offset + samplesize parser) st'
         | (Break, st') \<Rightarrow> (DC_STATUS_SUCCESS, st')
         | (Fail e, st') \<Rightarrow> (e, st'))
      else (DC_STATUS_SUCCESS, st))"
  by pat_completeness auto
termination
  by (relation "measure (\<lambda>(parser, interval, length_v, offset, st). length_v - offset)") auto

declare samples_loop.simps [simp del]

text \<open>
  \<^verbatim>\<open>shearwater_predator_parser_samples_foreach\<close>: the status, the parser after the
  call and the samples the callback received.
\<close>

definition shearwater_predator_parser_samples_foreach :: "shearwater_predator_parser_t \<Rightarrow> dc_status_t \<times> shearwater_predator_parser_t \<times> dc_sample_t list" where
  "shearwater_predator_parser_samples_foreach parser =
     (case shearwater_predator_parser_cache parser of
        (rc, parser1) \<Rightarrow>
          if rc \<noteq> DC_STATUS_SUCCESS then (rc, parser1, [])
          else
            (case sample_interval parser1 of
               Inl e \<Rightarrow> (e, parser1, [])
             | Inr interval \<Rightarrow>
                 (case samples_loop parser1 interval
                         (usub32 (length (base_data parser1)) (footersize parser1))
                         (headersize parser1)
                         \<lparr> time_s = 0, o2_previous_s = 0, he_previous_s = 0, emitted = [] \<rparr> of
                    (rc1, st) \<Rightarrow> (rc1, parser1, emitted st))))"

subsection \<open>Concrete buffers\<close>

text \<open>
  Buffers for the concrete runs below are written record by record: \<open>records n rs\<close>
  is the concatenation of the records \<open>rs\<close>, each padded with zero bytes to \<open>n\<close> bytes.
\<close>

definition pad :: "nat \<Rightarrow> byte list \<Rightarrow> byte list" where
  "pad n bs = bs @ replicate (n - length bs) 0"

definition records :: "nat \<Rightarrow> byte list list \<Rightarrow> byte list" where
  "records n rs = concat (map (pad n) rs)"

text \<open>A Predator and a Petrel parser that were given the buffer \<open>buf\<close>.\<close>

definition predator_parser :: "byte list \<Rightarrow> shearwater_predator_parser_t" where
  "predator_parser buf = dc_parser_set_data (shearwater_predator_parser_create PREDATOR 0) buf"

definition petrel_parser :: "byte list \<Rightarrow> shearwater_predator_parser_t" where
  "petrel_parser buf = dc_parser_set_data (shearwater_petrel_parser_create 3 0) buf"

text \<open>
  One legacy dive sample of 16 bytes: depth 100, gas 21/0, open circuit, and the
  temperature byte \<open>0xFF\<close>.
\<close>

definition cold_sample :: "byte list" where
  "cold_sample = [0, 100, 0, 0, 0, 0, 0, 21, 0, 0, 0, 0x10, 0, 0xFF, 0, 0]"

text \<open>
  A legacy buffer of two 16-byte blocks: the sample above, followed by the bytes its
  transmitter words are read from (T2 at offset 19: \<open>0x1064\<close>, critical; T1 at offset
  27: \<open>0x2064\<close>, warning).
\<close>

definition battery_buf :: "byte list" where
  "battery_buf = records 16 [cold_sample, [0, 0, 0, 0x10, 0x64, 0, 0, 0, 0, 0, 0, 0x20, 0x64]]"

text \<open>
  The same legacy dive sample with the temperature byte \<open>0x80\<close>, and a legacy Predator
  buffer: a header block of 128 zero bytes, the 16-byte records \<open>samples\<close> and a footer
  block of 128 zero bytes.
\<close>

definition colder_sample :: "byte list" where
  "colder_sample = [0, 100, 0, 0, 0, 0, 0, 21, 0, 0, 0, 0x10, 0, 0x80, 0, 0]"

definition legacy_buf :: "byte list list \<Rightarrow> byte list" where
  "legacy_buf samples =
     records 16 ([[], [], [], [], [], [], [], []] @ samples @ [[], [], [], [], [], [], [], []])"

text \<open>The smallest legacy buffer: a header block and a footer block of zero bytes.\<close>

definition legacy_min :: "byte list" where
  "legacy_min = records 128 [[], []]"

text \<open>
  PNF buffers of 32-byte records for a Petrel: the opening records 0..4 (log version 9
  in opening record 4), the records \<open>middle\<close>, and the closing records 0..4.
\<close>

definition pnf_buf :: "byte list list \<Rightarrow> byte list" where
  "pnf_buf middle =
     records 32 ([[0x10], [0x11], [0x12], [0x13],
                  [0x14, 0, 0, 0, 0, 0, 0, 0, 0, 0, 0, 0, 0, 0, 0, 0, 9]]
                 @ middle @ [[0x20], [0x21], [0x22], [0x23], [0x24]])"

text \<open>
  An opening record 5 with the sample interval \<open>hi * 256 + lo\<close> milliseconds at offset 23,
  and a dive sample in PNF layout (type byte 1): depth 100, gas \<open>o2\<close>/\<open>he\<close>, status flags
  \<open>status\<close>, no transmitter.
\<close>

definition opening_5 :: "byte \<Rightarrow> byte \<Rightarrow> byte list" where
  "opening_5 hi lo = [0x15, 0, 0, 0, 0, 0, 0, 0, 0, 0, 0, 0, 0, 0, 0, 0, 0, 0, 0, 0, 0, 0, 0, hi, lo]"

definition pnf_sample :: "byte \<Rightarrow> byte \<Rightarrow> byte \<Rightarrow> byte list" where
  "pnf_sample o2 he status =
     [0x01, 0, 100, 0, 0, 0, 0, 0, o2, he, 0, 0, status, 0, 20, 0, 0, 0, 0, 0,
      0xFF, 0xFF, 0, 0, 0, 0, 0, 0, 0xFF, 0xFF]"

text \<open>
  The parser a successful cache pass leaves for a PNF buffer of log version 9 whose
  bytes outside the type bytes, the log version and the records \<open>middle\<close> are zero;
  \<open>extra\<close> are the strings between the log version and the serial number.
\<close>

definition pnf_cached :: "byte list list \<Rightarrow> nat list \<Rightarrow> nat list \<Rightarrow> nat \<Rightarrow> nat list \<Rightarrow> nat list \<Rightarrow> dc_divemode_t \<Rightarrow> dc_field_string_t list \<Rightarrow> shearwater_predator_parser_t" where
  "pnf_cached middle opening_v closing_v ngasmixes_v oxygen_v helium_v mode_v extra =
     (petrel_parser (pnf_buf middle))
       \<lparr> cached := 1, pnf := 1, logversion := 9, headersize := 0, footersize := 0,
         opening := opening_v, closing := closing_v,
         ngasmixes := ngasmixes_v, oxygen := oxygen_v, helium := helium_v,
         calibrated := 0, calibration := [0, 0, 0], mode := mode_v,
         units := 0, atmospheric := 0, density := 0,
         strings :=
           (''Logversion'', Formatted ''%d%s'' [ArgN 9, ArgS ''(PNF)'']) # extra @
           [(''Serial'', Formatted ''%08x'' [ArgN 0]),
            (''FW Version'', Formatted ''%2x'' [ArgN 0]),
            (''Deco model'', Formatted ''GF %u/%u'' [ArgN 0, ArgN 0]),
            (''Battery type'', Formatted ''unknown type %d'' [ArgN 0]),
            (''Battery at end'', Formatted ''%.1f V'' [ArgN 0])] \<rparr>"

text \<open>
  The parser a successful cache pass leaves for a Predator and a legacy buffer whose
  bytes outside the records \<open>samples\<close> are zero.
\<close>

definition legacy_cached :: "byte list list \<Rightarrow> nat \<Rightarrow> nat list \<Rightarrow> shearwater_predator_parser_t" where
  "legacy_cached samples ngasmixes_v oxygen_v =
     (predator_parser (legacy_buf samples))
       \<lparr> cached := 1, pnf := 0, logversion := 0, headersize := 128, footersize := 128,
         opening := replicate 7 0, closing := replicate 7 (128 + 16 * length samples),
         ngasmixes := ngasmixes_v, oxygen := oxygen_v, helium := replicate 10 0,
         calibrated := 0, calibration := [0, 0, 0], mode := DC_DIVEMODE_OC,
         units := 0, atmospheric := 0, density := 0,
         strings :=
           [(''Logversion'', Formatted ''%d%s'' [ArgN 0, ArgS []]),
            (''O2 Sensor Calibration '' @ [char_of (48 :: nat)], Formatted ''%d %s'' [ArgN 0, ArgS ''mV'']),
            (''O2 Sensor Calibration '' @ [char_of (49 :: nat)], Formatted ''%d %s'' [ArgN 0, ArgS ''mV'']),
            (''O2 Sensor Calibration '' @ [char_of (50 :: nat)], Formatted ''%d %s'' [ArgN 0, ArgS ''mV'']),
            (''Serial'', Formatted ''%08x'' [ArgN 0]),
            (''FW Version'', Formatted ''%2x'' [ArgN 0]),
            (''Deco model'', Formatted ''GF %u/%u'' [ArgN 0, ArgN 0]),
            (''Battery at end'', Formatted ''%.1f V'' [ArgN 0])] \<rparr>"

subsection \<open>Notions used in the statements and proofs\<close>

text \<open>Every failure of \<open>m\<close> is one of the outcomes in \<open>S\<close>.\<close>

definition fails_within :: "dc_status_t set \<Rightarrow> dc_status_t + 'a \<Rightarrow> bool" where
  "fails_within S m = (\<forall>e. m = Inl e \<longrightarrow> e \<in> S)"

text \<open>
  A parser the create functions built (\<open>petrel_v\<close> is 0 for a Predator and 1 for a
  Petrel) and that was given the buffer \<open>buf\<close>.
\<close>

definition new_parser :: "nat \<Rightarrow> nat \<Rightarrow> nat \<Rightarrow> byte list \<Rightarrow> shearwater_predator_parser_t" where
  "new_parser model_v serial_v petrel_v buf =
     dc_parser_set_data (shearwater_common_parser_create model_v serial_v petrel_v) buf"

text \<open>
  The record at \<open>offset\<close> is one the sweep visits: the sweep starts at \<open>start\<close>, steps by
  \<open>step\<close> bytes and visits a record when it ends at or before \<open>length_v\<close>.
\<close>

definition swept :: "nat \<Rightarrow> nat \<Rightarrow> nat \<Rightarrow> nat \<Rightarrow> bool" where
  "swept start step length_v offset =
     (start \<le> offset \<and> (offset - start) mod step = 0 \<and> offset + step \<le> length_v)"

text \<open>
  The parser \<open>p'\<close> differs from \<open>p\<close> at most in the record offsets: the fields
  \<open>opening\<close>, \<open>closing\<close> and \<open>final\<close>, which the sweep writes.
\<close>

definition same_but_offsets :: "shearwater_predator_parser_t \<Rightarrow> shearwater_predator_parser_t \<Rightarrow> bool" where
  "same_but_offsets p p' =
     (p' \<lparr> opening := opening p, closing := closing p, final := final p \<rparr> = p)"

text \<open>
  The parser \<open>p'\<close> differs from \<open>p\<close> at most in the descriptive strings and the sensor
  calibration: the fields \<open>strings\<close>, \<open>calibration\<close> and \<open>calibrated\<close>.
\<close>

definition same_but_strings :: "shearwater_predator_parser_t \<Rightarrow> shearwater_predator_parser_t \<Rightarrow> bool" where
  "same_but_strings p p' =
     (p' \<lparr> strings := strings p, calibration := calibration p, calibrated := calibrated p \<rparr> = p)"

text \<open>Every result of \<open>m\<close> satisfies \<open>Q\<close>.\<close>

definition on_success :: "('a \<Rightarrow> bool) \<Rightarrow> dc_status_t + 'a \<Rightarrow> bool" where
  "on_success Q m = (\<forall>x. m = Inr x \<longrightarrow> Q x)"

text \<open>
  The elapsed times of the time samples and the values of the temperature samples among
  the samples of a replay, in the order of the calls.
\<close>

primrec sample_times :: "dc_sample_t list \<Rightarrow> nat list" where
  "sample_times [] = []"
| "sample_times (x # xs) = (case x of DC_SAMPLE_TIME t \<Rightarrow> [t] | _ \<Rightarrow> []) @ sample_times xs"

primrec sample_temperatures :: "dc_sample_t list \<Rightarrow> temperature_value list" where
  "sample_temperatures [] = []"
| "sample_temperatures (x # xs) =
     (case x of DC_SAMPLE_TEMPERATURE tv \<Rightarrow> [tv] | _ \<Rightarrow> []) @ sample_temperatures xs"

subsection \<open>Basic facts about the primitives\<close>

lemma rbind_Inr [simp]: "rbind (Inr x) f = f x"
  by (simp add: rbind_def)

lemma rbind_Inl [simp]: "rbind (Inl e) f = Inl e"
  by (simp add: rbind_def)

lemma rbind_eq_Inr: "rbind m f = Inr y \<longleftrightarrow> (\<exists>x. m = Inr x \<and> f x = Inr y)"
  by (cases m) simp_all

lemma rbind_eq_Inl: "rbind m f = Inl e \<longleftrightarrow> m = Inl e \<or> (\<exists>x. m = Inr x \<and> f x = Inl e)"
  by (cases m) simp_all

lemma u8_in: "i < length data \<Longrightarrow> u8 data i = Inr (unat (data ! i))"
  by (simp add: u8_def)

lemma u8_out: "length data \<le> i \<Longrightarrow> u8 data i = Inl OUT_OF_BOUNDS"
  by (simp add: u8_def)

lemma u8_eq_Inl: "u8 data i = Inl e \<longleftrightarrow> length data \<le> i \<and> e = OUT_OF_BOUNDS"
  by (auto simp: u8_def)

lemma u8_eq_Inr: "u8 data i = Inr v \<longleftrightarrow> i < length data \<and> v = unat (data ! i)"
  by (auto simp: u8_def)

lemma array_uint16_be_in:
  "i + 1 < length data \<Longrightarrow> array_uint16_be data i = Inr (unat (data ! i) * 256 + unat (data ! (i + 1)))"
  by (simp add: array_uint16_be_def u8_in)

lemma array_uint16_be_eq_Inl: "array_uint16_be data i = Inl e \<longleftrightarrow> length data \<le> i + 1 \<and> e = OUT_OF_BOUNDS"
  by (auto simp: array_uint16_be_def rbind_eq_Inl u8_eq_Inl u8_eq_Inr)

lemma array_uint24_be_eq_Inl: "array_uint24_be data i = Inl e \<longleftrightarrow> length data \<le> i + 2 \<and> e = OUT_OF_BOUNDS"
  by (auto simp: array_uint24_be_def rbind_eq_Inl u8_eq_Inl u8_eq_Inr)

lemma array_uint32_be_eq_Inl: "array_uint32_be data i = Inl e \<longleftrightarrow> length data \<le> i + 3 \<and> e = OUT_OF_BOUNDS"
  by (auto simp: array_uint32_be_def rbind_eq_Inl u8_eq_Inl u8_eq_Inr)

lemma array_isequal_in:
  "i + n \<le> length data \<Longrightarrow> array_isequal data i n v = Inr (list_all (\<lambda>b. b = v) (take n (drop i data)))"
  by (simp add: array_isequal_def)

lemma array_isequal_eq_Inl: "array_isequal data i n v = Inl e \<longleftrightarrow> length data < i + n \<and> e = OUT_OF_BOUNDS"
  by (auto simp: array_isequal_def)

lemma battery_state_bits_cases:
  "battery_state_bits w = 0 \<or> battery_state_bits w = 1 \<or> battery_state_bits w = 2 \<or> battery_state_bits w = 4"
proof -
  have "drop_bit 12 w \<le> 2 \<Longrightarrow> drop_bit 12 w = 0 \<or> drop_bit 12 w = 1 \<or> drop_bit 12 w = 2"
    by arith
  then show ?thesis
    by (auto simp: battery_state_bits_def Let_def)
qed

lemma or_le_7:
  assumes "(a::nat) \<le> 7" and "b = 0 \<or> b = 1 \<or> b = 2 \<or> b = 4"
  shows "a OR b \<le> 7"
proof -
  have "a = 0 \<or> a = 1 \<or> a = 2 \<or> a = 3 \<or> a = 4 \<or> a = 5 \<or> a = 6 \<or> a = 7"
    using assms(1) by arith
  then show ?thesis using assms(2) by auto
qed

lemma battery_state_eq_Inr:
  "battery_state data i = Inr b \<longleftrightarrow> (\<exists>w. array_uint16_be data i = Inr w \<and> b = battery_state_bits w)"
  by (auto simp: battery_state_def rbind_eq_Inr)

lemma battery_state_eq_Inl: "battery_state data i = Inl e \<longleftrightarrow> length data \<le> i + 1 \<and> e = OUT_OF_BOUNDS"
  by (auto simp: battery_state_def rbind_eq_Inl array_uint16_be_eq_Inl)

lemma battery_state_or_le_7:
  assumes "battery_state data i = Inr b" and "a \<le> 7"
  shows "a OR b \<le> 7"
proof -
  obtain w where "b = battery_state_bits w" using assms(1) by (auto simp: battery_state_eq_Inr)
  then have "b = 0 \<or> b = 1 \<or> b = 2 \<or> b = 4" using battery_state_bits_cases[of w] by simp
  then show ?thesis using assms(2) by (rule or_le_7[rotated])
qed

subsection \<open>The sweep of the cache pass, record by record\<close>

lemma cache_gaschange_eq_Inl:
  "cache_gaschange l o2 he = Inl e \<longleftrightarrow>
     e = DC_STATUS_NOMEMORY \<and> (o2 \<noteq> o2_previous l \<or> he \<noteq> he_previous l) \<and>
     ngasmixes_l l \<le> find_gasmix_from (oxygen_l l) (helium_l l) (ngasmixes_l l) o2 he 0 \<and>
     NGASMIXES \<le> find_gasmix_from (oxygen_l l) (helium_l l) (ngasmixes_l l) o2 he 0"
  by (auto simp: cache_gaschange_def Let_def)

lemma cache_gaschange_other:
  "cache_gaschange l o2 he = Inr l' \<Longrightarrow>
     t1_battery l' = t1_battery l \<and> t2_battery l' = t2_battery l \<and> mode_l l' = mode_l l"
  by (auto simp: cache_gaschange_def Let_def split: if_splits)

lemma cache_dive_sample_eq_Inr:
  "cache_dive_sample data pnf_v offset l = Inr l' \<longleftrightarrow>
     (\<exists>l2 b1 b2.
        offset + 11 + pnf_v < length data \<and>
        cache_gaschange
          (if unat (data ! (offset + 11 + pnf_v)) AND OC = 0 then l \<lparr> mode_l := DC_DIVEMODE_CCR \<rparr> else l)
          (unat (data ! (offset + 7 + pnf_v))) (unat (data ! (offset + 8 + pnf_v))) = Inr l2 \<and>
        battery_state data (offset + 27 + pnf_v) = Inr b1 \<and>
        battery_state data (offset + 19 + pnf_v) = Inr b2 \<and>
        l' = l2 \<lparr> t1_battery := t1_battery l2 OR b1, t2_battery := t2_battery l2 OR b2 \<rparr>)"
  by (auto simp: cache_dive_sample_def rbind_eq_Inr u8_eq_Inr Let_def)

lemma cache_dive_sample_eq_Inl:
  "cache_dive_sample data pnf_v offset l = Inl e \<Longrightarrow> e = DC_STATUS_NOMEMORY \<or> e = OUT_OF_BOUNDS"
  by (auto simp: cache_dive_sample_def rbind_eq_Inl u8_eq_Inl cache_gaschange_eq_Inl battery_state_eq_Inl Let_def)

lemma cache_dive_sample_battery:
  assumes "cache_dive_sample data pnf_v offset l = Inr l'"
    and "t1_battery l \<le> 7" and "t2_battery l \<le> 7"
  shows "t1_battery l' \<le> 7 \<and> t2_battery l' \<le> 7"
proof -
  obtain l2 b1 b2 where g: "cache_gaschange
          (if unat (data ! (offset + 11 + pnf_v)) AND OC = 0 then l \<lparr> mode_l := DC_DIVEMODE_CCR \<rparr> else l)
          (unat (data ! (offset + 7 + pnf_v))) (unat (data ! (offset + 8 + pnf_v))) = Inr l2"
    and b1: "battery_state data (offset + 27 + pnf_v) = Inr b1"
    and b2: "battery_state data (offset + 19 + pnf_v) = Inr b2"
    and l': "l' = l2 \<lparr> t1_battery := t1_battery l2 OR b1, t2_battery := t2_battery l2 OR b2 \<rparr>"
    using assms(1) unfolding cache_dive_sample_eq_Inr by blast
  have "t1_battery l2 \<le> 7" "t2_battery l2 \<le> 7"
    using cache_gaschange_other[OF g] assms(2,3) by (auto split: if_splits)
  then show ?thesis
    using battery_state_or_le_7[OF b1] battery_state_or_le_7[OF b2] l' by simp
qed

lemmas record_type_consts =
  LOG_RECORD_DIVE_SAMPLE_def LOG_RECORD_FREEDIVE_SAMPLE_def LOG_RECORD_OPENING_0_def
  LOG_RECORD_OPENING_7_def LOG_RECORD_CLOSING_0_def LOG_RECORD_CLOSING_7_def
  LOG_RECORD_INFO_EVENT_def LOG_RECORD_FINAL_def NRECORDS_def

lemma cache_record_empty_Inl:
  "array_isequal (base_data p) offset (samplesize p) 0 = Inl e \<Longrightarrow> cache_record pnf_v offset (p, l) = Inl e"
  by (simp add: cache_record_def)

lemma cache_record_empty:
  "array_isequal (base_data p) offset (samplesize p) 0 = Inr True \<Longrightarrow> cache_record pnf_v offset (p, l) = Inr (p, l)"
  by (simp add: cache_record_def)

lemma cache_record_type_Inl:
  "array_isequal (base_data p) offset (samplesize p) 0 = Inr False \<Longrightarrow>
   record_type (base_data p) pnf_v offset = Inl e \<Longrightarrow> cache_record pnf_v offset (p, l) = Inl e"
  by (simp add: cache_record_def)

lemma cache_record_dive:
  "array_isequal (base_data p) offset (samplesize p) 0 = Inr False \<Longrightarrow>
   record_type (base_data p) pnf_v offset = Inr LOG_RECORD_DIVE_SAMPLE \<Longrightarrow>
   cache_record pnf_v offset (p, l) = rbind (cache_dive_sample (base_data p) pnf_v offset l) (\<lambda>l'. Inr (p, l'))"
  by (simp add: cache_record_def)

lemma cache_record_freedive:
  "array_isequal (base_data p) offset (samplesize p) 0 = Inr False \<Longrightarrow>
   record_type (base_data p) pnf_v offset = Inr LOG_RECORD_FREEDIVE_SAMPLE \<Longrightarrow>
   cache_record pnf_v offset (p, l) = Inr (p, l \<lparr> mode_l := DC_DIVEMODE_FREEDIVE \<rparr>)"
  by (simp add: cache_record_def record_type_consts)

lemma cache_record_opening:
  "array_isequal (base_data p) offset (samplesize p) 0 = Inr False \<Longrightarrow>
   record_type (base_data p) pnf_v offset = Inr (LOG_RECORD_OPENING_0 + c) \<Longrightarrow> c < NRECORDS \<Longrightarrow>
   cache_record pnf_v offset (p, l) = Inr (p \<lparr> opening := (opening p)[c := offset] \<rparr>, l)"
  by (simp add: cache_record_def record_type_consts)

lemma cache_record_opening_7:
  "array_isequal (base_data p) offset (samplesize p) 0 = Inr False \<Longrightarrow>
   record_type (base_data p) pnf_v offset = Inr LOG_RECORD_OPENING_7 \<Longrightarrow>
   cache_record pnf_v offset (p, l) = Inl OUT_OF_BOUNDS"
  by (simp add: cache_record_def record_type_consts)

lemma cache_record_closing:
  "array_isequal (base_data p) offset (samplesize p) 0 = Inr False \<Longrightarrow>
   record_type (base_data p) pnf_v offset = Inr (LOG_RECORD_CLOSING_0 + c) \<Longrightarrow> c < NRECORDS \<Longrightarrow>
   cache_record pnf_v offset (p, l) = Inr (p \<lparr> closing := (closing p)[c := offset] \<rparr>, l)"
  by (simp add: cache_record_def record_type_consts)

lemma cache_record_closing_7:
  "array_isequal (base_data p) offset (samplesize p) 0 = Inr False \<Longrightarrow>
   record_type (base_data p) pnf_v offset = Inr LOG_RECORD_CLOSING_7 \<Longrightarrow>
   cache_record pnf_v offset (p, l) = Inl OUT_OF_BOUNDS"
  by (simp add: cache_record_def record_type_consts)

lemma cache_record_final:
  "array_isequal (base_data p) offset (samplesize p) 0 = Inr False \<Longrightarrow>
   record_type (base_data p) pnf_v offset = Inr LOG_RECORD_FINAL \<Longrightarrow>
   cache_record pnf_v offset (p, l) = Inr (p \<lparr> final := offset \<rparr>, l)"
  by (simp add: cache_record_def record_type_consts)

lemma cache_record_other:
  assumes "array_isequal (base_data p) offset (samplesize p) 0 = Inr False"
    and "record_type (base_data p) pnf_v offset = Inr t"
    and "t \<noteq> LOG_RECORD_DIVE_SAMPLE" and "t \<noteq> LOG_RECORD_FREEDIVE_SAMPLE"
    and "t < LOG_RECORD_OPENING_0 \<or> LOG_RECORD_OPENING_7 < t"
    and "t < LOG_RECORD_CLOSING_0 \<or> LOG_RECORD_CLOSING_7 < t" and "t \<noteq> LOG_RECORD_FINAL"
  shows "cache_record pnf_v offset (p, l) = Inr (p, l)"
proof -
  have o: "(t \<ge> LOG_RECORD_OPENING_0 \<and> t \<le> LOG_RECORD_OPENING_7) = False"
    using assms(5) by auto
  have c: "(t \<ge> LOG_RECORD_CLOSING_0 \<and> t \<le> LOG_RECORD_CLOSING_7) = False"
    using assms(6) by auto
  show ?thesis
    using assms(1,2,3,4,7) by (simp add: cache_record_def o c)
qed

text \<open>The ways a record of the sweep can succeed.\<close>

lemma cache_record_Inr_cases [consumes 1, case_names empty dive freedive open_rec close_rec final_rec other]:
  assumes "cache_record pnf_v offset (p, l) = Inr (p', l')"
  obtains
    (empty) "array_isequal (base_data p) offset (samplesize p) 0 = Inr True" "p' = p" "l' = l"
  | (dive) "array_isequal (base_data p) offset (samplesize p) 0 = Inr False"
      "record_type (base_data p) pnf_v offset = Inr LOG_RECORD_DIVE_SAMPLE"
      "cache_dive_sample (base_data p) pnf_v offset l = Inr l'" "p' = p"
  | (freedive) "array_isequal (base_data p) offset (samplesize p) 0 = Inr False"
      "record_type (base_data p) pnf_v offset = Inr LOG_RECORD_FREEDIVE_SAMPLE"
      "p' = p" "l' = l \<lparr> mode_l := DC_DIVEMODE_FREEDIVE \<rparr>"
  | (open_rec) c where "array_isequal (base_data p) offset (samplesize p) 0 = Inr False"
      "record_type (base_data p) pnf_v offset = Inr (LOG_RECORD_OPENING_0 + c)" "c < NRECORDS"
      "p' = p \<lparr> opening := (opening p)[c := offset] \<rparr>" "l' = l"
  | (close_rec) c where "array_isequal (base_data p) offset (samplesize p) 0 = Inr False"
      "record_type (base_data p) pnf_v offset = Inr (LOG_RECORD_CLOSING_0 + c)" "c < NRECORDS"
      "p' = p \<lparr> closing := (closing p)[c := offset] \<rparr>" "l' = l"
  | (final_rec) "array_isequal (base_data p) offset (samplesize p) 0 = Inr False"
      "record_type (base_data p) pnf_v offset = Inr LOG_RECORD_FINAL"
      "p' = p \<lparr> final := offset \<rparr>" "l' = l"
  | (other) t where "array_isequal (base_data p) offset (samplesize p) 0 = Inr False"
      "record_type (base_data p) pnf_v offset = Inr t"
      "t \<noteq> LOG_RECORD_DIVE_SAMPLE" "t \<noteq> LOG_RECORD_FREEDIVE_SAMPLE"
      "t < LOG_RECORD_OPENING_0 \<or> LOG_RECORD_OPENING_7 < t"
      "t < LOG_RECORD_CLOSING_0 \<or> LOG_RECORD_CLOSING_7 < t" "t \<noteq> LOG_RECORD_FINAL"
      "p' = p" "l' = l"
proof (cases "array_isequal (base_data p) offset (samplesize p) 0")
  case (Inl e)
  then have "cache_record pnf_v offset (p, l) = Inl e" by (rule cache_record_empty_Inl)
  then show ?thesis using assms by simp
next
  case (Inr b)
  show ?thesis
  proof (cases b)
    case True
    have e: "array_isequal (base_data p) offset (samplesize p) 0 = Inr True"
      using Inr True by simp
    have "cache_record pnf_v offset (p, l) = Inr (p, l)" using e by (rule cache_record_empty)
    then have "p' = p" "l' = l" using assms by simp_all
    then show ?thesis using e by (rule empty[rotated 1])
  next
    case False
    have ne: "array_isequal (base_data p) offset (samplesize p) 0 = Inr False"
      using Inr False by simp
    show ?thesis
    proof (cases "record_type (base_data p) pnf_v offset")
      case (Inl e)
      have "cache_record pnf_v offset (p, l) = Inl e" using ne Inl by (rule cache_record_type_Inl)
      then show ?thesis using assms by simp
    next
      case (Inr t)
      have "t = 1 \<or> t = 2 \<or> (\<exists>c<7. t = 16 + c) \<or> t = 23 \<or> (\<exists>c<7. t = 32 + c) \<or> t = 39 \<or> t = 255
          \<or> (t \<noteq> 1 \<and> t \<noteq> 2 \<and> (t < 16 \<or> 23 < t) \<and> (t < 32 \<or> 39 < t) \<and> t \<noteq> 255)"
        by presburger
      then consider (a) "t = LOG_RECORD_DIVE_SAMPLE" | (b) "t = LOG_RECORD_FREEDIVE_SAMPLE"
        | (c) c where "t = LOG_RECORD_OPENING_0 + c" "c < NRECORDS" | (d) "t = LOG_RECORD_OPENING_7"
        | (e) c where "t = LOG_RECORD_CLOSING_0 + c" "c < NRECORDS" | (f) "t = LOG_RECORD_CLOSING_7"
        | (g) "t = LOG_RECORD_FINAL"
        | (h) "t \<noteq> LOG_RECORD_DIVE_SAMPLE" "t \<noteq> LOG_RECORD_FREEDIVE_SAMPLE"
          "t < LOG_RECORD_OPENING_0 \<or> LOG_RECORD_OPENING_7 < t"
          "t < LOG_RECORD_CLOSING_0 \<or> LOG_RECORD_CLOSING_7 < t" "t \<noteq> LOG_RECORD_FINAL"
        unfolding record_type_consts by blast
      then show ?thesis
      proof cases
        case a
        have t: "record_type (base_data p) pnf_v offset = Inr LOG_RECORD_DIVE_SAMPLE"
          using Inr a by simp
        have "rbind (cache_dive_sample (base_data p) pnf_v offset l) (\<lambda>l'. Inr (p, l')) = Inr (p', l')"
          using cache_record_dive[OF ne t] assms by simp
        then have "cache_dive_sample (base_data p) pnf_v offset l = Inr l'" "p' = p"
          by (auto simp: rbind_eq_Inr)
        then show ?thesis using dive[OF ne t] by blast
      next
        case b
        have t: "record_type (base_data p) pnf_v offset = Inr LOG_RECORD_FREEDIVE_SAMPLE"
          using Inr b by simp
        have "p' = p" "l' = l \<lparr> mode_l := DC_DIVEMODE_FREEDIVE \<rparr>"
          using cache_record_freedive[OF ne t] assms by simp_all
        then show ?thesis using freedive[OF ne t] by blast
      next
        case (c c)
        have t: "record_type (base_data p) pnf_v offset = Inr (LOG_RECORD_OPENING_0 + c)"
          using Inr c by simp
        have "p' = p \<lparr> opening := (opening p)[c := offset] \<rparr>" "l' = l"
          using cache_record_opening[OF ne t c(2)] assms by simp_all
        then show ?thesis using open_rec[OF ne t c(2)] by blast
      next
        case d
        have "cache_record pnf_v offset (p, l) = Inl OUT_OF_BOUNDS"
          using ne Inr d by (simp add: cache_record_opening_7)
        then show ?thesis using assms by simp
      next
        case (e c)
        have t: "record_type (base_data p) pnf_v offset = Inr (LOG_RECORD_CLOSING_0 + c)"
          using Inr e by simp
        have "p' = p \<lparr> closing := (closing p)[c := offset] \<rparr>" "l' = l"
          using cache_record_closing[OF ne t e(2)] assms by simp_all
        then show ?thesis using close_rec[OF ne t e(2)] by blast
      next
        case f
        have "cache_record pnf_v offset (p, l) = Inl OUT_OF_BOUNDS"
          using ne Inr f by (simp add: cache_record_closing_7)
        then show ?thesis using assms by simp
      next
        case g
        have t: "record_type (base_data p) pnf_v offset = Inr LOG_RECORD_FINAL"
          using Inr g by simp
        have "p' = p \<lparr> final := offset \<rparr>" "l' = l"
          using cache_record_final[OF ne t] assms by simp_all
        then show ?thesis using final_rec[OF ne t] by blast
      next
        case h
        have "p' = p" "l' = l"
          using cache_record_other[OF ne Inr h] assms by simp_all
        then show ?thesis using other[OF ne Inr h] by blast
      qed
    qed
  qed
qed

lemma cache_record_battery:
  assumes "cache_record pnf_v offset s = Inr s'"
    and "t1_battery (snd s) \<le> 7" and "t2_battery (snd s) \<le> 7"
  shows "t1_battery (snd s') \<le> 7 \<and> t2_battery (snd s') \<le> 7"
proof -
  obtain p l p' l' where s: "s = (p, l)" "s' = (p', l')" by (cases s, cases s') auto
  from assms(1)[unfolded s] show ?thesis
  proof (cases rule: cache_record_Inr_cases)
    case dive
    then show ?thesis using cache_dive_sample_battery assms(2,3) s by auto
  qed (use assms(2,3) s in auto)
qed

text \<open>The sweep, one record at a time.\<close>

lemma cache_loop_stop:
  "\<not> (offset + samplesize (fst s) \<le> length_v \<and> 0 < samplesize (fst s)) \<Longrightarrow>
   cache_loop pnf_v length_v offset s = (DC_STATUS_SUCCESS, s)"
  by (subst cache_loop.simps) auto

lemma cache_loop_fail:
  "offset + samplesize (fst s) \<le> length_v \<Longrightarrow> 0 < samplesize (fst s) \<Longrightarrow>
   cache_record pnf_v offset s = Inl e \<Longrightarrow> cache_loop pnf_v length_v offset s = (e, s)"
  by (simp add: cache_loop.simps)

lemma cache_loop_step:
  "offset + samplesize (fst s) \<le> length_v \<Longrightarrow> 0 < samplesize (fst s) \<Longrightarrow>
   cache_record pnf_v offset s = Inr s' \<Longrightarrow>
   cache_loop pnf_v length_v offset s = cache_loop pnf_v length_v (offset + samplesize (fst s)) s'"
  by (simp add: cache_loop.simps)

lemma cache_loop_battery:
  "cache_loop pnf_v length_v offset s = (rc, s') \<Longrightarrow>
   t1_battery (snd s) \<le> 7 \<Longrightarrow> t2_battery (snd s) \<le> 7 \<Longrightarrow>
   t1_battery (snd s') \<le> 7 \<and> t2_battery (snd s') \<le> 7"
proof (induction pnf_v length_v offset s rule: cache_loop.induct)
  case (1 pnf_v length_v offset s)
  show ?case
  proof (cases "offset + samplesize (fst s) \<le> length_v \<and> 0 < samplesize (fst s)")
    case False
    with "1.prems" show ?thesis by (simp add: cache_loop_stop)
  next
    case True
    show ?thesis
    proof (cases "cache_record pnf_v offset s")
      case (Inl e)
      with True "1.prems" show ?thesis by (simp add: cache_loop_fail)
    next
      case (Inr s1)
      have b: "t1_battery (snd s1) \<le> 7 \<and> t2_battery (snd s1) \<le> 7"
        using cache_record_battery[OF Inr] "1.prems" by simp
      have "cache_loop pnf_v length_v (offset + samplesize (fst s)) s1 = (rc, s')"
        using True Inr "1.prems"(1) by (simp add: cache_loop_step)
      then show ?thesis using "1.IH"[OF True Inr] b by simp
    qed
  qed
qed

subsection \<open>Reading a buffer that is written record by record\<close>

lemma length_pad: "length bs \<le> n \<Longrightarrow> length (pad n bs) = n"
  by (simp add: pad_def)

lemma length_records: "list_all (\<lambda>r. length r \<le> n) rs \<Longrightarrow> length (records n rs) = n * length rs"
  by (induction rs) (simp_all add: records_def length_pad)

lemma nth_pad: "j < n \<Longrightarrow> pad n bs ! j = (if j < length bs then bs ! j else 0)"
  by (simp add: pad_def nth_append)

lemma drop_records:
  "list_all (\<lambda>r. length r \<le> n) rs \<Longrightarrow> drop (n * k) (records n rs) = records n (drop k rs)"
proof (induction rs arbitrary: k)
  case Nil
  then show ?case by (simp add: records_def)
next
  case (Cons r rs)
  show ?case
  proof (cases k)
    case 0
    then show ?thesis by simp
  next
    case (Suc k')
    have "length (pad n r) = n" using Cons.prems by (simp add: length_pad)
    moreover have "drop (n * k') (records n rs) = records n (drop k' rs)"
      using Cons by simp
    ultimately show ?thesis using Suc by (simp add: records_def)
  qed
qed

lemma nth_records:
  assumes "list_all (\<lambda>r. length r \<le> n) rs" and "i < n * length rs"
  shows "records n rs ! i = (let r = rs ! (i div n) in if i mod n < length r then r ! (i mod n) else 0)"
proof -
  have n0: "0 < n" using assms(2) by (cases n) auto
  have k: "i div n < length rs" using assms(2) n0
    by (simp add: less_mult_imp_div_less mult.commute)
  have le: "n * (i div n) \<le> length (records n rs)"
    using assms(1) k by (simp add: length_records)
  have "records n rs ! i = records n rs ! (n * (i div n) + i mod n)" by simp
  also have "\<dots> = drop (n * (i div n)) (records n rs) ! (i mod n)"
    using le by (rule nth_drop [symmetric])
  also have "\<dots> = records n (drop (i div n) rs) ! (i mod n)"
    using assms(1) by (simp add: drop_records)
  also have "drop (i div n) rs = rs ! (i div n) # drop (Suc (i div n)) rs"
    using k by (simp add: Cons_nth_drop_Suc)
  also have "records n (rs ! (i div n) # drop (Suc (i div n)) rs) ! (i mod n) = pad n (rs ! (i div n)) ! (i mod n)"
  proof -
    have "length (rs ! (i div n)) \<le> n" using assms(1) k by (simp add: list_all_length)
    then show ?thesis using n0 by (simp add: records_def nth_append length_pad)
  qed
  finally show ?thesis using n0 by (simp add: nth_pad Let_def)
qed

lemma u8_records:
  "list_all (\<lambda>r. length r \<le> n) rs \<Longrightarrow>
   u8 (records n rs) i =
     (if i < n * length rs
      then Inr (unat (let r = rs ! (i div n) in if i mod n < length r then r ! (i mod n) else 0))
      else Inl OUT_OF_BOUNDS)"
  by (simp add: u8_def length_records nth_records)

lemma take_drop_records:
  assumes "list_all (\<lambda>r. length r \<le> n) rs" and "k < length rs"
  shows "take n (drop (n * k) (records n rs)) = pad n (rs ! k)"
proof -
  have d: "drop k rs = rs ! k # drop (Suc k) rs" using assms(2) by (simp add: Cons_nth_drop_Suc)
  have l: "length (pad n (rs ! k)) = n" using assms by (simp add: list_all_length length_pad)
  have "take n (drop (n * k) (records n rs)) = take n (records n (drop k rs))"
    using assms(1) by (simp add: drop_records)
  also have "\<dots> = take n (pad n (rs ! k) @ records n (drop (Suc k) rs))"
    by (simp add: d records_def)
  also have "\<dots> = pad n (rs ! k)" using l by simp
  finally show ?thesis .
qed

lemma all_zero_pad: "list_all (\<lambda>b. b = 0) (pad n r) = list_all (\<lambda>b. b = (0::byte)) r"
  by (auto simp: pad_def list_all_iff)

lemma array_isequal_records:
  assumes "list_all (\<lambda>r. length r \<le> n) rs" and "0 < n" and "i mod n = 0"
  shows "array_isequal (records n rs) i n 0 =
     (if i + n \<le> n * length rs
      then Inr (list_all (\<lambda>b. b = 0) (rs ! (i div n)))
      else Inl OUT_OF_BOUNDS)"
proof (cases "i + n \<le> n * length rs")
  case True
  have i: "i = n * (i div n)" using assms(3) by auto
  have "i < n * length rs" using True assms(2) by linarith
  then have k: "i div n < length rs"
    by (simp add: less_mult_imp_div_less mult.commute)
  have "take n (drop i (records n rs)) = pad n (rs ! (i div n))"
    using take_drop_records[OF assms(1) k] i by simp
  then show ?thesis using True assms(1)
    by (simp add: array_isequal_def length_records all_zero_pad)
next
  case False
  then show ?thesis using assms(1) by (auto simp: array_isequal_def length_records)
qed

lemma replicate_numeral: "replicate (numeral k) x = x # replicate (pred_numeral k) x"
  by (simp add: numeral_eq_Suc)

text \<open>The definitions and equations that a concrete run unfolds.\<close>

lemmas run_consts =
  LOG_RECORD_DIVE_SAMPLE_def LOG_RECORD_FREEDIVE_SAMPLE_def LOG_RECORD_OPENING_0_def
  LOG_RECORD_OPENING_7_def LOG_RECORD_CLOSING_0_def LOG_RECORD_CLOSING_7_def
  LOG_RECORD_INFO_EVENT_def LOG_RECORD_FINAL_def SZ_BLOCK_def SZ_SAMPLE_PREDATOR_def
  SZ_SAMPLE_PETREL_def SZ_SAMPLE_FREEDIVE_def PPO2_EXTERNAL_def SETPOINT_HIGH_def OC_def
  METRIC_def IMPERIAL_def NGASMIXES_def MAXSTRINGS_def NRECORDS_def PREDATOR_def
  INFO_EVENT_TAG_LOG_def UNDEFINED_def

lemmas run_parser =
  predator_parser_def petrel_parser_def dc_parser_set_data_def
  shearwater_predator_parser_set_data_def shearwater_petrel_parser_create_def
  shearwater_predator_parser_create_def shearwater_common_parser_create_def

lemmas run_reads =
  u8_records array_isequal_records length_records array_uint16_be_def array_uint24_be_def
  array_uint32_be_def record_type_def replicate_numeral Let_def

lemmas run_cache =
  shearwater_predator_parser_cache_def cache_format_def cache_loop.simps cache_record_def
  cache_dive_sample_def cache_gaschange_def find_gasmix_from.simps cache_finish_def
  cache_sensors_def cache_strings_def
  cache_record_missing_def cache_calibration_step_def add_deco_model_def add_battery_type_def
  add_string_def add_string_fmt_def add_battery_info_def battery_state_def
  battery_state_bits_def states_def cache_locals_init_def upt_conv_Cons

lemmas run_samples =
  shearwater_predator_parser_samples_foreach_def sample_interval_def samples_loop.simps
  samples_record_def samples_dive_sample_def sample_head_def sample_tail_def
  sample_gaschange_def sample_info_event_def on_read_def usub32_def sample_temperature_def
  shearwater_predator_find_gasmix_def

subsection \<open>Which failures the cache pass can return\<close>

lemma fails_within_Inr [simp]: "fails_within S (Inr x)"
  by (simp add: fails_within_def)

lemma fails_within_Inl [simp]: "fails_within S (Inl e) \<longleftrightarrow> e \<in> S"
  by (simp add: fails_within_def)

lemma fails_within_rbind:
  "fails_within S m \<Longrightarrow> (\<And>x. fails_within S (f x)) \<Longrightarrow> fails_within S (rbind m f)"
  by (cases m) (simp_all add: fails_within_def)

lemma fails_within_if:
  "fails_within S a \<Longrightarrow> fails_within S b \<Longrightarrow> fails_within S (if c then a else b)"
  by simp

lemma fails_within_case_prod:
  "(\<And>a b. fails_within S (f a b)) \<Longrightarrow> fails_within S (case_prod f x)"
  by (cases x) simp

lemma fails_within_mono: "fails_within S m \<Longrightarrow> S \<subseteq> T \<Longrightarrow> fails_within T m"
  by (auto simp: fails_within_def)

lemma fails_within_u8: "OUT_OF_BOUNDS \<in> S \<Longrightarrow> fails_within S (u8 data i)"
  by (simp add: u8_def)

lemma fails_within_uint16: "OUT_OF_BOUNDS \<in> S \<Longrightarrow> fails_within S (array_uint16_be data i)"
  unfolding array_uint16_be_def by (intro fails_within_rbind fails_within_u8 fails_within_Inr)

lemma fails_within_uint24: "OUT_OF_BOUNDS \<in> S \<Longrightarrow> fails_within S (array_uint24_be data i)"
  unfolding array_uint24_be_def by (intro fails_within_rbind fails_within_u8 fails_within_Inr)

lemma fails_within_uint32: "OUT_OF_BOUNDS \<in> S \<Longrightarrow> fails_within S (array_uint32_be data i)"
  unfolding array_uint32_be_def by (intro fails_within_rbind fails_within_u8 fails_within_Inr)

lemma fails_within_isequal: "OUT_OF_BOUNDS \<in> S \<Longrightarrow> fails_within S (array_isequal data i n v)"
  by (simp add: array_isequal_def)

lemma fails_within_record_type: "OUT_OF_BOUNDS \<in> S \<Longrightarrow> fails_within S (record_type data pnf_v i)"
  by (simp add: record_type_def fails_within_u8)

lemma fails_within_battery_state: "OUT_OF_BOUNDS \<in> S \<Longrightarrow> fails_within S (battery_state data i)"
  unfolding battery_state_def by (intro fails_within_rbind fails_within_uint16 fails_within_Inr)

lemmas fails_within_intros =
  fails_within_rbind fails_within_if fails_within_case_prod fails_within_Inr fails_within_u8
  fails_within_uint16 fails_within_uint24 fails_within_uint32 fails_within_isequal
  fails_within_record_type fails_within_battery_state

lemma fails_within_cache_format:
  "fails_within {DC_STATUS_DATAFORMAT, OUT_OF_BOUNDS} (cache_format parser)"
  unfolding cache_format_def Let_def
  by (intro fails_within_intros) simp_all

lemma fails_within_cache_gaschange:
  "fails_within {DC_STATUS_NOMEMORY, OUT_OF_BOUNDS} (cache_gaschange l o2 he)"
  unfolding cache_gaschange_def Let_def
  by (intro fails_within_intros) simp_all

lemma fails_within_cache_dive_sample:
  "fails_within {DC_STATUS_NOMEMORY, OUT_OF_BOUNDS} (cache_dive_sample data pnf_v offset l)"
  unfolding cache_dive_sample_def Let_def
  by (intro fails_within_intros fails_within_cache_gaschange) simp_all

lemma fails_within_cache_record:
  "fails_within {DC_STATUS_NOMEMORY, OUT_OF_BOUNDS} (cache_record pnf_v offset s)"
  unfolding cache_record_def Let_def
  by (intro fails_within_intros fails_within_cache_dive_sample) simp_all

lemma cache_loop_status:
  "fst (cache_loop pnf_v length_v offset s) \<in> {DC_STATUS_SUCCESS, DC_STATUS_NOMEMORY, OUT_OF_BOUNDS}"
proof (induction pnf_v length_v offset s rule: cache_loop.induct)
  case (1 pnf_v length_v offset s)
  show ?case
  proof (cases "offset + samplesize (fst s) \<le> length_v \<and> 0 < samplesize (fst s)")
    case False
    then show ?thesis by (simp add: cache_loop_stop)
  next
    case True
    show ?thesis
    proof (cases "cache_record pnf_v offset s")
      case (Inl e)
      then have "e \<in> {DC_STATUS_NOMEMORY, OUT_OF_BOUNDS}"
        using fails_within_cache_record[of pnf_v offset s] by (simp add: fails_within_def)
      then show ?thesis using True Inl by (auto simp: cache_loop_fail)
    next
      case (Inr s1)
      then show ?thesis using True "1.IH"[OF True Inr] by (simp add: cache_loop_step)
    qed
  qed
qed

lemma fails_within_cache_calibration_step:
  "fails_within {DC_STATUS_DATAFORMAT, OUT_OF_BOUNDS} (cache_calibration_step base_v i s)"
  unfolding cache_calibration_step_def Let_def
  by (intro fails_within_intros) simp_all

lemma fails_within_cache_calibration:
  "fails_within {DC_STATUS_DATAFORMAT, OUT_OF_BOUNDS} (cache_calibration base_v is s)"
  by (induction "is" arbitrary: s)
    (auto intro!: fails_within_rbind fails_within_cache_calibration_step)

lemma fails_within_add_deco_model:
  "fails_within {DC_STATUS_DATAFORMAT, OUT_OF_BOUNDS} (add_deco_model parser)"
  unfolding add_deco_model_def Let_def
  by (intro fails_within_intros) simp_all

lemma fails_within_add_battery_type:
  "fails_within {DC_STATUS_DATAFORMAT, OUT_OF_BOUNDS} (add_battery_type parser)"
  unfolding add_battery_type_def Let_def
  by (intro fails_within_intros) simp_all

lemma fails_within_cache_sensors:
  "fails_within {DC_STATUS_DATAFORMAT, OUT_OF_BOUNDS} (cache_sensors pnf_v mode_v parser)"
  unfolding cache_sensors_def Let_def
  by (intro fails_within_intros fails_within_cache_calibration) simp_all

lemma fails_within_cache_strings:
  "fails_within {DC_STATUS_DATAFORMAT, OUT_OF_BOUNDS} (cache_strings parser t1 t2)"
  unfolding cache_strings_def Let_def
  by (intro fails_within_intros fails_within_add_deco_model fails_within_add_battery_type) simp_all

lemma fails_within_cache_finish:
  "fails_within {DC_STATUS_DATAFORMAT, OUT_OF_BOUNDS} (cache_finish pnf_v headersize_v footersize_v s)"
  unfolding cache_finish_def Let_def
  by (intro fails_within_intros fails_within_cache_sensors fails_within_cache_strings) simp_all

lemma cache_status:
  "fst (shearwater_predator_parser_cache parser) \<in>
     {DC_STATUS_SUCCESS, DC_STATUS_DATAFORMAT, DC_STATUS_NOMEMORY, OUT_OF_BOUNDS}"
proof (cases "cached parser \<noteq> 0 \<or> length (base_data parser) < 2")
  case True
  then show ?thesis by (auto simp: shearwater_predator_parser_cache_def Let_def)
next
  case False
  define p0 where "p0 = parser \<lparr> strings := [] \<rparr>"
  show ?thesis
  proof (cases "cache_format p0")
    case (Inl e)
    then have "e \<in> {DC_STATUS_DATAFORMAT, OUT_OF_BOUNDS}"
      using fails_within_cache_format[of p0] by (simp add: fails_within_def)
    then show ?thesis using False Inl
      by (auto simp: shearwater_predator_parser_cache_def Let_def p0_def)
  next
    case (Inr r)
    obtain pnf_v hs fs p1 where r: "r = (pnf_v, hs, fs, p1)" by (cases r) auto
    obtain rc s where l: "cache_loop pnf_v (length (base_data parser) - fs) hs (p1, cache_locals_init) = (rc, s)"
      by (cases "cache_loop pnf_v (length (base_data parser) - fs) hs (p1, cache_locals_init)") auto
    have rc: "rc \<in> {DC_STATUS_SUCCESS, DC_STATUS_NOMEMORY, OUT_OF_BOUNDS}"
      using cache_loop_status[of pnf_v "length (base_data parser) - fs" hs "(p1, cache_locals_init)"] l
      by simp
    show ?thesis
    proof (cases "rc = DC_STATUS_SUCCESS")
      case False
      then show ?thesis using \<open>\<not> (cached parser \<noteq> 0 \<or> length (base_data parser) < 2)\<close> Inr r l rc
        by (auto simp: shearwater_predator_parser_cache_def Let_def p0_def)
    next
      case True
      show ?thesis
      proof (cases "cache_finish pnf_v hs fs s")
        case (Inl e)
        then have "e \<in> {DC_STATUS_DATAFORMAT, OUT_OF_BOUNDS}"
          using fails_within_cache_finish[of pnf_v hs fs s] by (simp add: fails_within_def)
        then show ?thesis
          using \<open>\<not> (cached parser \<noteq> 0 \<or> length (base_data parser) < 2)\<close> Inr r l True Inl
          by (auto simp: shearwater_predator_parser_cache_def Let_def p0_def)
      next
        case (Inr p2)
        then show ?thesis
          using \<open>\<not> (cached parser \<noteq> 0 \<or> length (base_data parser) < 2)\<close> \<open>cache_format p0 = Inr r\<close> r l True
          by (auto simp: shearwater_predator_parser_cache_def Let_def p0_def)
      qed
    qed
  qed
qed

subsection \<open>The replay, record by record\<close>

lemma on_read_Inr [simp]: "on_read st (Inr x) f = f x"
  by (simp add: on_read_def)

lemma on_read_Inl [simp]: "on_read st (Inl e) f = (Fail e, st)"
  by (simp add: on_read_def)

lemma on_read_eq_Continue:
  "on_read st m f = (Continue, st') \<longleftrightarrow> (\<exists>x. m = Inr x \<and> f x = (Continue, st'))"
  by (cases m) simp_all

lemma sample_head_eq_Inr:
  "sample_head parser pnf_v offset time_v = Inr head \<Longrightarrow>
     \<exists>rest. head = DC_SAMPLE_TIME time_v # rest"
  by (auto simp: sample_head_def Let_def rbind_eq_Inr)

lemma samples_dive_sample_time:
  assumes "samples_dive_sample parser interval offset st = (Continue, st')"
  shows "time_s st' = time_s st + interval \<and>
         emitted st' ! length (emitted st) = DC_SAMPLE_TIME (time_s st + interval)"
proof -
  obtain head o2 he prev gasmix tail where
    h: "sample_head parser (pnf parser) offset (time_s st + interval) = Inr head"
    and st': "st' = st \<lparr> time_s := time_s st + interval,
                         o2_previous_s := fst prev, he_previous_s := snd prev,
                         emitted := ((emitted st @ head) @ gasmix) @ tail \<rparr>"
    using assms
    by (auto simp: samples_dive_sample_def Let_def on_read_eq_Continue split: prod.splits)
  obtain rest where "head = DC_SAMPLE_TIME (time_s st + interval) # rest"
    using sample_head_eq_Inr[OF h] by blast
  then show ?thesis using st' by (simp add: nth_append)
qed

subsection \<open>What the stages of the cache pass leave unchanged\<close>

lemma cache_dive_sample_mode:
  assumes "cache_dive_sample data pnf_v offset l = Inr l'"
  shows "offset + 11 + pnf_v < length data \<and>
         mode_l l' = (if unat (data ! (offset + 11 + pnf_v)) AND OC = 0 then DC_DIVEMODE_CCR else mode_l l)"
proof -
  obtain l2 b1 b2 where g: "cache_gaschange
          (if unat (data ! (offset + 11 + pnf_v)) AND OC = 0 then l \<lparr> mode_l := DC_DIVEMODE_CCR \<rparr> else l)
          (unat (data ! (offset + 7 + pnf_v))) (unat (data ! (offset + 8 + pnf_v))) = Inr l2"
    and b: "offset + 11 + pnf_v < length data"
    and l': "l' = l2 \<lparr> t1_battery := t1_battery l2 OR b1, t2_battery := t2_battery l2 OR b2 \<rparr>"
    using assms unfolding cache_dive_sample_eq_Inr by blast
  show ?thesis using cache_gaschange_other[OF g] b l' by (simp split: if_splits)
qed

lemma same_but_offsets_refl [simp]: "same_but_offsets p p"
  by (simp add: same_but_offsets_def)

lemma same_but_offsets_trans:
  assumes "same_but_offsets p p'" and "same_but_offsets p' p''"
  shows "same_but_offsets p p''"
proof -
  have "p'' \<lparr> opening := opening p, closing := closing p, final := final p \<rparr> =
        (p'' \<lparr> opening := opening p', closing := closing p', final := final p' \<rparr>)
          \<lparr> opening := opening p, closing := closing p, final := final p \<rparr>"
    by simp
  also have "\<dots> = p' \<lparr> opening := opening p, closing := closing p, final := final p \<rparr>"
    using assms(2) by (simp only: same_but_offsets_def)
  also have "\<dots> = p" using assms(1) by (simp only: same_but_offsets_def)
  finally show ?thesis by (simp only: same_but_offsets_def)
qed

lemma same_but_offsets_fields:
  assumes "same_but_offsets p p'"
  shows "base_data p' = base_data p" "samplesize p' = samplesize p" "petrel p' = petrel p"
    "model p' = model p" "serial p' = serial p" "cached p' = cached p" "pnf p' = pnf p"
    "logversion p' = logversion p" "headersize p' = headersize p" "footersize p' = footersize p"
    "ngasmixes p' = ngasmixes p" "oxygen p' = oxygen p" "helium p' = helium p"
    "calibrated p' = calibrated p" "calibration p' = calibration p" "mode p' = mode p"
    "units p' = units p" "atmospheric p' = atmospheric p" "density p' = density p"
    "strings p' = strings p"
proof -
  have e: "p' \<lparr> opening := opening p, closing := closing p, final := final p \<rparr> = p"
    using assms by (simp only: same_but_offsets_def)
  show "base_data p' = base_data p" using arg_cong[OF e, of base_data] by simp
  show "samplesize p' = samplesize p" using arg_cong[OF e, of samplesize] by simp
  show "petrel p' = petrel p" using arg_cong[OF e, of petrel] by simp
  show "model p' = model p" using arg_cong[OF e, of model] by simp
  show "serial p' = serial p" using arg_cong[OF e, of serial] by simp
  show "cached p' = cached p" using arg_cong[OF e, of cached] by simp
  show "pnf p' = pnf p" using arg_cong[OF e, of pnf] by simp
  show "logversion p' = logversion p" using arg_cong[OF e, of logversion] by simp
  show "headersize p' = headersize p" using arg_cong[OF e, of headersize] by simp
  show "footersize p' = footersize p" using arg_cong[OF e, of footersize] by simp
  show "ngasmixes p' = ngasmixes p" using arg_cong[OF e, of ngasmixes] by simp
  show "oxygen p' = oxygen p" using arg_cong[OF e, of oxygen] by simp
  show "helium p' = helium p" using arg_cong[OF e, of helium] by simp
  show "calibrated p' = calibrated p" using arg_cong[OF e, of calibrated] by simp
  show "calibration p' = calibration p" using arg_cong[OF e, of calibration] by simp
  show "mode p' = mode p" using arg_cong[OF e, of mode] by simp
  show "units p' = units p" using arg_cong[OF e, of units] by simp
  show "atmospheric p' = atmospheric p" using arg_cong[OF e, of atmospheric] by simp
  show "density p' = density p" using arg_cong[OF e, of density] by simp
  show "strings p' = strings p" using arg_cong[OF e, of strings] by simp
qed

lemma cache_record_frame:
  assumes "cache_record pnf_v offset (p, l) = Inr (p', l')"
  shows "same_but_offsets p p' \<and> length (opening p') = length (opening p) \<and>
         length (closing p') = length (closing p)"
  using assms
  by (cases rule: cache_record_Inr_cases) (simp_all add: same_but_offsets_def)

lemma cache_record_data:
  assumes "cache_record pnf_v offset s = Inr s'"
  shows "base_data (fst s') = base_data (fst s) \<and> samplesize (fst s') = samplesize (fst s)"
proof -
  have "cache_record pnf_v offset (fst s, snd s) = Inr (fst s', snd s')" using assms by simp
  from cache_record_frame[OF this] show ?thesis by (simp add: same_but_offsets_fields)
qed

lemma cache_loop_frame:
  "cache_loop pnf_v length_v offset s = (rc, s') \<Longrightarrow>
     same_but_offsets (fst s) (fst s') \<and> length (opening (fst s')) = length (opening (fst s)) \<and>
     length (closing (fst s')) = length (closing (fst s))"
proof (induction pnf_v length_v offset s rule: cache_loop.induct)
  case (1 pnf_v length_v offset s)
  show ?case
  proof (cases "offset + samplesize (fst s) \<le> length_v \<and> 0 < samplesize (fst s)")
    case False
    with "1.prems" show ?thesis by (simp add: cache_loop_stop)
  next
    case True
    show ?thesis
    proof (cases "cache_record pnf_v offset s")
      case (Inl e)
      with True "1.prems" show ?thesis by (simp add: cache_loop_fail)
    next
      case (Inr s1)
      have "cache_record pnf_v offset (fst s, snd s) = Inr (fst s1, snd s1)" using Inr by simp
      note f = cache_record_frame[OF this]
      have "cache_loop pnf_v length_v (offset + samplesize (fst s)) s1 = (rc, s')"
        using True Inr "1.prems"(1) by (simp add: cache_loop_step)
      from "1.IH"[OF True Inr this] f show ?thesis
        using same_but_offsets_trans by auto
    qed
  qed
qed

lemma same_but_strings_refl [simp]: "same_but_strings p p"
  by (simp add: same_but_strings_def)















subsection \<open>The stages of the cache pass of a new parser\<close>


lemma on_success_Inr [simp]: "on_success Q (Inr x) \<longleftrightarrow> Q x"
  by (simp add: on_success_def)

lemma on_success_Inl [simp]: "on_success Q (Inl e)"
  by (simp add: on_success_def)

lemma on_success_rbind:
  "(\<And>x. m = Inr x \<Longrightarrow> on_success Q (f x)) \<Longrightarrow> on_success Q (rbind m f)"
  by (cases m) (simp_all add: on_success_def)

lemma on_success_if:
  "(c \<Longrightarrow> on_success Q a) \<Longrightarrow> (\<not> c \<Longrightarrow> on_success Q b) \<Longrightarrow> on_success Q (if c then a else b)"
  by simp

lemma on_successD: "on_success Q m \<Longrightarrow> m = Inr x \<Longrightarrow> Q x"
  by (simp add: on_success_def)

lemma cache_format_on_success:
  "on_success (\<lambda>(pnf_v, hs, fs, p1).
      (pnf_v = 1 \<and> petrel p0 \<noteq> 0 \<and> hs = 0 \<and> fs = 0 \<and> p1 = p0) \<or>
      (pnf_v = 0 \<and> hs = 128 \<and> (fs = 128 \<or> fs = 256) \<and> hs + fs \<le> length (base_data p0) \<and>
       same_but_offsets p0 p1 \<and> opening p1 = replicate 7 0 \<and>
       closing p1 = replicate 7 (length (base_data p0) - fs)))
     (cache_format p0)"
  unfolding cache_format_def Let_def
proof (intro on_success_rbind on_success_if, goal_cases)
  case (1 x)
  then show ?case by simp
next
  case (2 x xa)
  then show ?case by (simp add: SZ_BLOCK_def)
next
  case (3 x xa)
  then show ?case by (simp add: SZ_BLOCK_def NRECORDS_def same_but_offsets_def)
next
  case (4 x xa)
  then show ?case by (simp add: SZ_BLOCK_def NRECORDS_def same_but_offsets_def)
next
  case (5 x)
  then show ?case by (auto simp: rbind_eq_Inr split: if_splits)
qed

lemma cache_format_Inr:
  assumes "cache_format p0 = Inr (pnf_v, hs, fs, p1)"
  shows "(pnf_v = 1 \<and> petrel p0 \<noteq> 0 \<and> hs = 0 \<and> fs = 0 \<and> p1 = p0) \<or>
         (pnf_v = 0 \<and> hs = 128 \<and> (fs = 128 \<or> fs = 256) \<and> hs + fs \<le> length (base_data p0) \<and>
          same_but_offsets p0 p1 \<and> opening p1 = replicate 7 0 \<and>
          closing p1 = replicate 7 (length (base_data p0) - fs))"
  using on_successD[OF cache_format_on_success assms] by simp


lemma cache_failure_state:
  assumes "shearwater_predator_parser_cache p = (rc, p')" and "rc \<noteq> DC_STATUS_SUCCESS"
    and "cached p = 0"
  shows "same_but_offsets (p \<lparr> strings := [] \<rparr>) p'"
proof (cases "length (base_data p) < 2")
  case True
  then show ?thesis using assms by (simp add: shearwater_predator_parser_cache_def Let_def)
next
  case False
  show ?thesis
  proof (cases "cache_format (p \<lparr> strings := [] \<rparr>)")
    case (Inl e)
    then show ?thesis using assms False
      by (simp add: shearwater_predator_parser_cache_def Let_def)
  next
    case (Inr r)
    obtain pnf_v hs fs p1 where r: "r = (pnf_v, hs, fs, p1)" by (cases r) auto
    obtain rc1 p2 l where l: "cache_loop pnf_v (length (base_data p) - fs) hs (p1, cache_locals_init) = (rc1, p2, l)"
      by (cases "cache_loop pnf_v (length (base_data p) - fs) hs (p1, cache_locals_init)") auto
    have c: "shearwater_predator_parser_cache p =
        (if rc1 \<noteq> DC_STATUS_SUCCESS then (rc1, p2)
         else (case cache_finish pnf_v hs fs (p2, l) of Inl e \<Rightarrow> (e, fst (p2, l))
               | Inr q \<Rightarrow> (DC_STATUS_SUCCESS, q)))"
      using assms(3) False Inr r l by (simp add: shearwater_predator_parser_cache_def Let_def)
    have "p' = p2" using c assms(1,2) by (auto split: if_splits sum.splits)
    moreover have "same_but_offsets (p \<lparr> strings := [] \<rparr>) p1"
      using cache_format_Inr[OF Inr[unfolded r]] by auto
    moreover have "same_but_offsets p1 p2" using cache_loop_frame[OF l] by simp
    ultimately show ?thesis using same_but_offsets_trans by blast
  qed
qed

subsection \<open>Splitting the sweep at a record\<close>

lemma swept_next:
  assumes "(start::nat) < offset" and "(offset - start) mod step = 0" and "0 < step"
  shows "start + step \<le> offset \<and> (offset - (start + step)) mod step = 0"
proof -
  have "step dvd (offset - start)" using assms(2) by (simp only: mod_eq_0_iff_dvd)
  then obtain k where k: "offset - start = step * k" by (auto simp: dvd_def)
  have "k \<noteq> 0"
  proof
    assume "k = 0"
    then have "offset - start = 0" using k by simp
    then show False using assms(1) by simp
  qed
  then obtain j where j: "k = Suc j" by (cases k) auto
  have "offset = start + (offset - start)" using assms(1) by simp
  also have "\<dots> = start + step * Suc j" using k j by simp
  finally have "offset = start + step + step * j" by simp
  then show ?thesis by simp
qed

lemma cache_loop_split:
  "start \<le> offset \<Longrightarrow> (offset - start) mod samplesize (fst s) = 0 \<Longrightarrow> offset \<le> length_v \<Longrightarrow>
   cache_loop pnf_v length_v start s =
     (case cache_loop pnf_v offset start s of
        (rc, s1) \<Rightarrow> if rc = DC_STATUS_SUCCESS then cache_loop pnf_v length_v offset s1 else (rc, s1))"
proof (induction pnf_v offset start s rule: cache_loop.induct)
  case (1 pnf_v offset start s)
  show ?case
  proof (cases "start + samplesize (fst s) \<le> offset \<and> 0 < samplesize (fst s)")
    case False
    have stop: "cache_loop pnf_v offset start s = (DC_STATUS_SUCCESS, s)"
      using False by (rule cache_loop_stop)
    show ?thesis
    proof (cases "samplesize (fst s) = 0")
      case True
      then have "cache_loop pnf_v length_v start s = (DC_STATUS_SUCCESS, s)"
        "cache_loop pnf_v length_v offset s = (DC_STATUS_SUCCESS, s)"
        by (simp_all add: cache_loop_stop)
      then show ?thesis using stop by simp
    next
      case nz: False
      have "start = offset"
      proof (rule ccontr)
        assume "start \<noteq> offset"
        then have "start < offset" using "1.prems"(1) by simp
        from swept_next[OF this "1.prems"(2)] nz False show False by simp
      qed
      then show ?thesis using stop by simp
    qed
  next
    case True
    then have g: "start + samplesize (fst s) \<le> length_v" using "1.prems" by simp
    show ?thesis
    proof (cases "cache_record pnf_v start s")
      case (Inl e)
      have "e \<noteq> DC_STATUS_SUCCESS"
        using fails_within_cache_record[of pnf_v start s] Inl by (auto simp: fails_within_def)
      then show ?thesis using True g Inl by (simp add: cache_loop_fail)
    next
      case (Inr s1)
      have d: "samplesize (fst s1) = samplesize (fst s)" using cache_record_data[OF Inr] by simp
      have "start < offset" using True by simp
      from swept_next[OF this "1.prems"(2)] True
      have n: "start + samplesize (fst s) \<le> offset"
        "(offset - (start + samplesize (fst s))) mod samplesize (fst s1) = 0"
        using d by simp_all
      have "cache_loop pnf_v length_v (start + samplesize (fst s)) s1 =
          (case cache_loop pnf_v offset (start + samplesize (fst s)) s1 of
            (rc, s2) \<Rightarrow> if rc = DC_STATUS_SUCCESS then cache_loop pnf_v length_v offset s2 else (rc, s2))"
        using "1.IH"[OF True Inr n "1.prems"(3)] .
      then show ?thesis using True g Inr by (simp add: cache_loop_step)
    qed
  qed
qed

subsection \<open>Which record of a class the sweep keeps\<close>

lemma swept_first: "start + step \<le> length_v \<Longrightarrow> swept start step length_v start"
  by (simp add: swept_def)

lemma swept_later: "swept (start + step) step length_v offset \<Longrightarrow> swept start step length_v offset"
proof -
  assume a: "swept (start + step) step length_v offset"
  then have "offset - start = (offset - (start + step)) + step" by (simp add: swept_def)
  then have "(offset - start) mod step = (offset - (start + step)) mod step" by simp
  then show ?thesis using a by (simp add: swept_def)
qed

lemma swept_cases:
  assumes "swept start step length_v offset" and "0 < step"
  shows "offset = start \<or> swept (start + step) step length_v offset"
proof (cases "offset = start")
  case False
  then have "start < offset" using assms(1) by (simp add: swept_def)
  from swept_next[OF this _ assms(2)] assms(1) show ?thesis by (simp add: swept_def)
qed simp

lemma swept_guard: "swept start step length_v offset \<Longrightarrow> start + step \<le> length_v"
  by (simp add: swept_def)






lemma cache_loop_mode_keep:
  "cache_loop pnf_v length_v start s = (DC_STATUS_SUCCESS, s') \<Longrightarrow>
   mode_l (snd s) = DC_DIVEMODE_FREEDIVE \<Longrightarrow>
   \<forall>off. swept start (samplesize (fst s)) length_v off \<and>
         array_isequal (base_data (fst s)) off (samplesize (fst s)) 0 = Inr False \<and>
         record_type (base_data (fst s)) pnf_v off = Inr LOG_RECORD_DIVE_SAMPLE \<longrightarrow>
         unat (base_data (fst s) ! (off + 11 + pnf_v)) AND OC \<noteq> 0 \<Longrightarrow>
   mode_l (snd s') = DC_DIVEMODE_FREEDIVE"
proof (induction pnf_v length_v start s rule: cache_loop.induct)
  case (1 pnf_v length_v start s)
  show ?case
  proof (cases "start + samplesize (fst s) \<le> length_v \<and> 0 < samplesize (fst s)")
    case False
    with "1.prems" show ?thesis by (simp add: cache_loop_stop)
  next
    case True
    show ?thesis
    proof (cases "cache_record pnf_v start s")
      case (Inl e)
      have "e \<noteq> DC_STATUS_SUCCESS"
        using fails_within_cache_record[of pnf_v start s] Inl by (auto simp: fails_within_def)
      then show ?thesis using True Inl "1.prems"(1) by (simp add: cache_loop_fail)
    next
      case (Inr s1)
      have d: "base_data (fst s1) = base_data (fst s)" "samplesize (fst s1) = samplesize (fst s)"
        using cache_record_data[OF Inr] by simp_all
      have sw: "swept start (samplesize (fst s)) length_v start" using True swept_first by blast
      have r: "cache_record pnf_v start (fst s, snd s) = Inr (fst s1, snd s1)" using Inr by simp
      have m: "mode_l (snd s1) = DC_DIVEMODE_FREEDIVE"
        using r
      proof (cases rule: cache_record_Inr_cases)
        case dive
        have "unat (base_data (fst s) ! (start + 11 + pnf_v)) AND OC \<noteq> 0"
          using "1.prems"(3) sw dive(1,2) by blast
        then show ?thesis using cache_dive_sample_mode[OF dive(3)] "1.prems"(2) by simp
      qed (use "1.prems"(2) in auto)
      have l: "cache_loop pnf_v length_v (start + samplesize (fst s)) s1 = (DC_STATUS_SUCCESS, s')"
        using True Inr "1.prems"(1) by (simp add: cache_loop_step)
      have "\<forall>off. swept (start + samplesize (fst s)) (samplesize (fst s1)) length_v off \<and>
         array_isequal (base_data (fst s1)) off (samplesize (fst s1)) 0 = Inr False \<and>
         record_type (base_data (fst s1)) pnf_v off = Inr LOG_RECORD_DIVE_SAMPLE \<longrightarrow>
         unat (base_data (fst s1) ! (off + 11 + pnf_v)) AND OC \<noteq> 0"
        using "1.prems"(3) d swept_later by auto
      from "1.IH"[OF True Inr l m this] show ?thesis .
    qed
  qed
qed

lemma cache_loop_mode_last:
  "cache_loop pnf_v length_v start s = (DC_STATUS_SUCCESS, s') \<Longrightarrow>
   swept start (samplesize (fst s)) length_v offset \<Longrightarrow> 0 < samplesize (fst s) \<Longrightarrow>
   array_isequal (base_data (fst s)) offset (samplesize (fst s)) 0 = Inr False \<Longrightarrow>
   record_type (base_data (fst s)) pnf_v offset = Inr LOG_RECORD_FREEDIVE_SAMPLE \<Longrightarrow>
   \<forall>off. offset < off \<and> swept start (samplesize (fst s)) length_v off \<and>
         array_isequal (base_data (fst s)) off (samplesize (fst s)) 0 = Inr False \<and>
         record_type (base_data (fst s)) pnf_v off = Inr LOG_RECORD_DIVE_SAMPLE \<longrightarrow>
         unat (base_data (fst s) ! (off + 11 + pnf_v)) AND OC \<noteq> 0 \<Longrightarrow>
   mode_l (snd s') = DC_DIVEMODE_FREEDIVE"
proof (induction pnf_v length_v start s rule: cache_loop.induct)
  case (1 pnf_v length_v start s)
  have g: "start + samplesize (fst s) \<le> length_v \<and> 0 < samplesize (fst s)"
    using "1.prems"(2,3) swept_guard by blast
  show ?case
  proof (cases "cache_record pnf_v start s")
    case (Inl e)
    have "e \<noteq> DC_STATUS_SUCCESS"
      using fails_within_cache_record[of pnf_v start s] Inl by (auto simp: fails_within_def)
    then show ?thesis using g Inl "1.prems"(1) by (simp add: cache_loop_fail)
  next
    case (Inr s1)
    have d: "base_data (fst s1) = base_data (fst s)" "samplesize (fst s1) = samplesize (fst s)"
      using cache_record_data[OF Inr] by simp_all
    have r: "cache_record pnf_v start (fst s, snd s) = Inr (fst s1, snd s1)" using Inr by simp
    have l: "cache_loop pnf_v length_v (start + samplesize (fst s)) s1 = (DC_STATUS_SUCCESS, s')"
      using g Inr "1.prems"(1) by (simp add: cache_loop_step)
    from swept_cases[OF "1.prems"(2,3)] show ?thesis
    proof
      assume eq: "offset = start"
      have "cache_record pnf_v start (fst s, snd s) =
          Inr (fst s, (snd s) \<lparr> mode_l := DC_DIVEMODE_FREEDIVE \<rparr>)"
        using cache_record_freedive "1.prems"(4,5) eq by blast
      then have "s1 = (fst s, (snd s) \<lparr> mode_l := DC_DIVEMODE_FREEDIVE \<rparr>)" using r by simp
      then have m: "mode_l (snd s1) = DC_DIVEMODE_FREEDIVE" by simp
      have "\<forall>off. swept (start + samplesize (fst s)) (samplesize (fst s1)) length_v off \<and>
         array_isequal (base_data (fst s1)) off (samplesize (fst s1)) 0 = Inr False \<and>
         record_type (base_data (fst s1)) pnf_v off = Inr LOG_RECORD_DIVE_SAMPLE \<longrightarrow>
         unat (base_data (fst s1) ! (off + 11 + pnf_v)) AND OC \<noteq> 0"
      proof (intro allI impI)
        fix off
        assume a: "swept (start + samplesize (fst s)) (samplesize (fst s1)) length_v off \<and>
         array_isequal (base_data (fst s1)) off (samplesize (fst s1)) 0 = Inr False \<and>
         record_type (base_data (fst s1)) pnf_v off = Inr LOG_RECORD_DIVE_SAMPLE"
        then have "offset < off" using eq g by (simp add: swept_def)
        moreover have "swept start (samplesize (fst s)) length_v off"
          using a d swept_later by simp
        ultimately show "unat (base_data (fst s1) ! (off + 11 + pnf_v)) AND OC \<noteq> 0"
          using "1.prems"(6) a d by simp
      qed
      from cache_loop_mode_keep[OF l m this] show ?thesis .
    next
      assume sw: "swept (start + samplesize (fst s)) (samplesize (fst s)) length_v offset"
      have "\<forall>off. offset < off \<and> swept (start + samplesize (fst s)) (samplesize (fst s1)) length_v off \<and>
         array_isequal (base_data (fst s1)) off (samplesize (fst s1)) 0 = Inr False \<and>
         record_type (base_data (fst s1)) pnf_v off = Inr LOG_RECORD_DIVE_SAMPLE \<longrightarrow>
         unat (base_data (fst s1) ! (off + 11 + pnf_v)) AND OC \<noteq> 0"
        using "1.prems"(6) d swept_later by auto
      from "1.IH"[OF g Inr l] sw "1.prems"(3,4,5) d this show ?thesis by simp
    qed
  qed
qed

subsection \<open>The cache pass of a new parser on a PNF buffer\<close>


lemma all_swept_0:
  assumes "0 < step"
  shows "(\<forall>off. swept 0 step n off \<longrightarrow> Q off) \<longleftrightarrow> list_all Q (map (\<lambda>k. step * k) [0..<n div step])"
proof -
  have "swept 0 step n off \<longleftrightarrow> (\<exists>k<n div step. off = step * k)" for off
  proof
    assume a: "swept 0 step n off"
    then have m: "off mod step = 0" and le: "off + step \<le> n" by (simp_all add: swept_def)
    have e: "off = step * (off div step)" using m by auto
    have "step * (off div step + 1) \<le> n" using le e by (simp add: algebra_simps)
    then have "(step * (off div step + 1)) div step \<le> n div step" by (rule div_le_mono)
    then have "off div step + 1 \<le> n div step" using assms by simp
    then have "off div step < n div step" by simp
    then show "\<exists>k<n div step. off = step * k" using e by blast
  next
    assume "\<exists>k<n div step. off = step * k"
    then obtain k where k: "k < n div step" "off = step * k" by blast
    have "k + 1 \<le> n div step" using k(1) by simp
    then have "step * (k + 1) \<le> step * (n div step)" by (rule mult_le_mono2)
    also have "\<dots> \<le> n" by simp
    finally show "swept 0 step n off" using k(2) by (simp add: swept_def algebra_simps)
  qed
  note E = this
  have "(\<forall>off. swept 0 step n off \<longrightarrow> Q off) \<longleftrightarrow> (\<forall>k<n div step. Q (step * k))"
  proof (intro iffI allI impI)
    fix k assume H: "\<forall>off. swept 0 step n off \<longrightarrow> Q off" and k: "k < n div step"
    have "swept 0 step n (step * k)" using E[of "step * k"] k by blast
    then show "Q (step * k)" using H by blast
  next
    fix off assume H: "\<forall>k<n div step. Q (step * k)" and s: "swept 0 step n off"
    obtain k where "k < n div step" "off = step * k" using E[of off] s by blast
    then show "Q off" using H by blast
  qed
  moreover have "list_all Q (map (\<lambda>k. step * k) [0..<n div step]) \<longleftrightarrow> (\<forall>k<n div step. Q (step * k))"
    by (auto simp: list_all_iff)
  ultimately show ?thesis by blast
qed


subsection \<open>The replay loop\<close>

lemma sample_times_append [simp]: "sample_times (xs @ ys) = sample_times xs @ sample_times ys"
  by (induction xs) simp_all

lemma sample_temperatures_append [simp]:
  "sample_temperatures (xs @ ys) = sample_temperatures xs @ sample_temperatures ys"
  by (induction xs) simp_all

lemma set_sample_temperatures:
  "tv \<in> set (sample_temperatures xs) \<longleftrightarrow> DC_SAMPLE_TEMPERATURE tv \<in> set xs"
  by (induction xs) (auto split: dc_sample_t.splits)

lemma fails_within_sample_head:
  "fails_within {DC_STATUS_DATAFORMAT, OUT_OF_BOUNDS} (sample_head parser pnf_v offset time_v)"
  unfolding sample_head_def Let_def
  by (intro fails_within_intros) simp_all

lemma fails_within_sample_gaschange:
  "fails_within {DC_STATUS_DATAFORMAT, OUT_OF_BOUNDS} (sample_gaschange parser o2 he o2p hep)"
  by (simp add: sample_gaschange_def Let_def)

lemma fails_within_sample_tail:
  "fails_within {DC_STATUS_DATAFORMAT, OUT_OF_BOUNDS} (sample_tail parser pnf_v offset)"
  unfolding sample_tail_def Let_def
  by (intro fails_within_intros) simp_all

lemma fails_within_sample_info_event:
  "fails_within {DC_STATUS_DATAFORMAT, OUT_OF_BOUNDS} (sample_info_event parser offset)"
  unfolding sample_info_event_def Let_def
  by (intro fails_within_intros) simp_all

lemma not_success:
  "fails_within {DC_STATUS_DATAFORMAT, OUT_OF_BOUNDS} m \<Longrightarrow> m = Inl e \<Longrightarrow> e \<noteq> DC_STATUS_SUCCESS"
  by (auto simp: fails_within_def)

lemma sample_head_Inr:
  assumes "sample_head parser pnf_v offset time_v = Inr head"
  shows "\<exists>depth rest. array_uint16_be (base_data parser) (pnf_v + offset) = Inr depth \<and>
           offset + pnf_v + 13 < length (base_data parser) \<and>
           head = [DC_SAMPLE_TIME time_v, DC_SAMPLE_DEPTH (Depth_tenths depth (units parser)),
                   DC_SAMPLE_TEMPERATURE
                     (Temperature_byte (sample_temperature (base_data parser ! (offset + pnf_v + 13)))
                        (units parser))] @ rest \<and>
           sample_times rest = [] \<and> sample_temperatures rest = []"
proof -
  obtain depth t status cc cns where
    d: "array_uint16_be (base_data parser) (pnf_v + offset) = Inr depth"
    and t: "u8 (base_data parser) (offset + pnf_v + 13) = Inr t"
    and cc: "(if status AND OC = 0 then
               rbind (if status AND PPO2_EXTERNAL = 0 then
                        (if calibrated parser = 0 then
                           rbind (u8 (base_data parser) (offset + pnf_v + 6)) (\<lambda>v. Inr [DC_SAMPLE_PPO2 v None])
                         else
                           rbind (u8 (base_data parser) (offset + pnf_v + 12)) (\<lambda>c0.
                           rbind (u8 (base_data parser) (offset + pnf_v + 14)) (\<lambda>c1.
                           rbind (u8 (base_data parser) (offset + pnf_v + 15)) (\<lambda>c2.
                           Inr ((if calibrated parser AND 0x01 \<noteq> 0
                                 then [DC_SAMPLE_PPO2 c0 (Some (calibration parser ! 0))] else []) @
                                (if calibrated parser AND 0x02 \<noteq> 0
                                 then [DC_SAMPLE_PPO2 c1 (Some (calibration parser ! 1))] else []) @
                                (if calibrated parser AND 0x04 \<noteq> 0
                                 then [DC_SAMPLE_PPO2 c2 (Some (calibration parser ! 2))] else []))))))
                      else Inr []) (\<lambda>ppo2.
               rbind (if petrel parser \<noteq> 0 then u8 (base_data parser) (offset + pnf_v + 18)
                      else if status AND SETPOINT_HIGH \<noteq> 0 then u8 (base_data parser) 18
                      else u8 (base_data parser) 17) (\<lambda>setpoint.
               Inr (ppo2 @ [DC_SAMPLE_SETPOINT setpoint])))
             else Inr []) = Inr cc"
    and cns: "(if petrel parser \<noteq> 0
             then rbind (u8 (base_data parser) (offset + pnf_v + 22)) (\<lambda>cns. Inr [DC_SAMPLE_CNS cns])
             else Inr []) = Inr cns"
    and h: "head = [DC_SAMPLE_TIME time_v, DC_SAMPLE_DEPTH (Depth_tenths depth (units parser)),
            DC_SAMPLE_TEMPERATURE
              (Temperature_byte (sample_temperature (of_nat t)) (units parser))] @ cc @ cns"
    using assms unfolding sample_head_def Let_def rbind_eq_Inr by blast
  have t': "offset + pnf_v + 13 < length (base_data parser)"
    "t = unat (base_data parser ! (offset + pnf_v + 13))" using t by (simp_all add: u8_eq_Inr)
  have 1: "sample_times cc = [] \<and> sample_temperatures cc = []"
    using cc by (auto simp: rbind_eq_Inr split: if_splits)
  have 2: "sample_times cns = [] \<and> sample_temperatures cns = []"
    using cns by (auto simp: rbind_eq_Inr split: if_splits)
  show ?thesis using d t' h 1 2 by simp
qed

lemma sample_gaschange_Inr:
  "sample_gaschange parser o2 he o2p hep = Inr (prev, gasmix) \<Longrightarrow>
     sample_times gasmix = [] \<and> sample_temperatures gasmix = []"
  by (auto simp: sample_gaschange_def Let_def split: if_splits)

lemma sample_tail_Inr:
  "sample_tail parser pnf_v offset = Inr tail \<Longrightarrow>
     sample_times tail = [] \<and> sample_temperatures tail = []"
  by (auto simp: sample_tail_def Let_def rbind_eq_Inr split: if_splits)

lemma sample_info_event_Inr:
  "sample_info_event parser offset = Inr events \<Longrightarrow>
     sample_times events = [] \<and> sample_temperatures events = []"
  by (auto simp: sample_info_event_def Let_def rbind_eq_Inr split: if_splits)

text \<open>
  What a dive sample does to the state of the replay: either its first reads fail and
  nothing is emitted, or the time, depth and temperature are emitted, followed by
  samples that are neither a time nor a temperature.
\<close>

lemma samples_dive_sample_cases [consumes 1, case_names fail_head emit]:
  assumes "samples_dive_sample parser i off st = (c, st')"
  obtains (fail_head) e where
      "sample_head parser (pnf parser) off (time_s st + i) = Inl e" "c = Fail e" "st' = st"
    | (emit) head rest where
      "sample_head parser (pnf parser) off (time_s st + i) = Inr head"
      "time_s st' = time_s st + i" "emitted st' = emitted st @ head @ rest"
      "sample_times rest = []" "sample_temperatures rest = []"
      "c = Continue \<or> (\<exists>e. c = Fail e \<and> e \<noteq> DC_STATUS_SUCCESS)"
proof (cases "sample_head parser (pnf parser) off (time_s st + i)")
  case (Inl e)
  then have "c = Fail e \<and> st' = st" using assms by (simp add: samples_dive_sample_def Let_def)
  then show ?thesis using fail_head Inl by blast
next
  case (Inr head)
  define st1 where "st1 = st \<lparr> time_s := time_s st + i, emitted := emitted st @ head \<rparr>"
  have s1: "time_s st1 = time_s st + i" "emitted st1 = emitted st @ head @ []"
    by (simp_all add: st1_def)
  have eq: "(c, st') =
      on_read st1 (u8 (base_data parser) (off + pnf parser + 7)) (\<lambda>o2.
      on_read st1 (u8 (base_data parser) (off + pnf parser + 8)) (\<lambda>he.
      on_read st1 (sample_gaschange parser o2 he (o2_previous_s st1) (he_previous_s st1)) (\<lambda>(prev, gasmix).
      let st2 = st1 \<lparr> o2_previous_s := fst prev, he_previous_s := snd prev,
                      emitted := emitted st1 @ gasmix \<rparr> in
      on_read st2 (sample_tail parser (pnf parser) off) (\<lambda>tail.
      (Continue, st2 \<lparr> emitted := emitted st2 @ tail \<rparr>)))))"
    using assms Inr by (simp add: samples_dive_sample_def Let_def st1_def)
  show ?thesis
  proof (cases "u8 (base_data parser) (off + pnf parser + 7)")
    case (Inl e)
    then have "c = Fail e" "st' = st1" using eq by simp_all
    moreover have "e \<noteq> DC_STATUS_SUCCESS" using Inl by (simp add: u8_eq_Inl)
    ultimately show ?thesis using emit[OF Inr, of "[]"] s1 by simp
  next
    case o2: (Inr o2)
    show ?thesis
    proof (cases "u8 (base_data parser) (off + pnf parser + 8)")
      case (Inl e)
      then have "c = Fail e" "st' = st1" using eq o2 by simp_all
      moreover have "e \<noteq> DC_STATUS_SUCCESS" using Inl by (simp add: u8_eq_Inl)
      ultimately show ?thesis using emit[OF Inr, of "[]"] s1 by simp
    next
      case he: (Inr he)
      show ?thesis
      proof (cases "sample_gaschange parser o2 he (o2_previous_s st1) (he_previous_s st1)")
        case (Inl e)
        then have "c = Fail e" "st' = st1" using eq o2 he by simp_all
        moreover have "e \<noteq> DC_STATUS_SUCCESS"
          using not_success[OF fails_within_sample_gaschange Inl] .
        ultimately show ?thesis using emit[OF Inr, of "[]"] s1 by simp
      next
        case g: (Inr r)
        obtain prev gasmix where r: "r = (prev, gasmix)" by (cases r) auto
        define st2 where "st2 = st1 \<lparr> o2_previous_s := fst prev, he_previous_s := snd prev,
                      emitted := emitted st1 @ gasmix \<rparr>"
        have s2: "time_s st2 = time_s st + i" "emitted st2 = emitted st @ head @ gasmix"
          by (simp_all add: st2_def st1_def)
        have gm: "sample_times gasmix = []" "sample_temperatures gasmix = []"
          using sample_gaschange_Inr g r by blast+
        have eq2: "(c, st') = on_read st2 (sample_tail parser (pnf parser) off) (\<lambda>tail.
            (Continue, st2 \<lparr> emitted := emitted st2 @ tail \<rparr>))"
          using eq o2 he g r by (simp add: st2_def Let_def)
        show ?thesis
        proof (cases "sample_tail parser (pnf parser) off")
          case (Inl e)
          then have "c = Fail e" "st' = st2" using eq2 by simp_all
          moreover have "e \<noteq> DC_STATUS_SUCCESS"
            using not_success[OF fails_within_sample_tail Inl] .
          ultimately show ?thesis using emit[OF Inr, of gasmix] s2 gm by simp
        next
          case (Inr tail)
          then have "c = Continue" "st' = st2 \<lparr> emitted := emitted st2 @ tail \<rparr>"
            using eq2 by simp_all
          moreover have "sample_times tail = []" "sample_temperatures tail = []"
            using sample_tail_Inr Inr by blast+
          ultimately show ?thesis
            using emit[OF \<open>sample_head parser (pnf parser) off (time_s st + i) = Inr head\<close>,
                of "gasmix @ tail"] s2 gm by simp
        qed
      qed
    qed
  qed
qed

lemma dive_sample_type_neq:
  "LOG_RECORD_DIVE_SAMPLE \<noteq> LOG_RECORD_FINAL" "LOG_RECORD_DIVE_SAMPLE \<noteq> LOG_RECORD_INFO_EVENT"
  "LOG_RECORD_FINAL \<noteq> LOG_RECORD_INFO_EVENT" "LOG_RECORD_FINAL \<noteq> LOG_RECORD_DIVE_SAMPLE"
  "LOG_RECORD_INFO_EVENT \<noteq> LOG_RECORD_FINAL" "LOG_RECORD_INFO_EVENT \<noteq> LOG_RECORD_DIVE_SAMPLE"
  by (simp_all add: LOG_RECORD_DIVE_SAMPLE_def LOG_RECORD_FINAL_def LOG_RECORD_INFO_EVENT_def)

text \<open>
  What a record does to the state of the replay: nothing, the samples of an info
  event, or the samples of a dive sample that is not empty.
\<close>

lemma samples_record_cases [consumes 1, case_names skip event dive]:
  assumes "samples_record parser i off st = (c, st')"
  obtains (skip) "st' = st" "c \<noteq> Fail DC_STATUS_SUCCESS"
    | (event) events where "c = Continue" "st' = st \<lparr> emitted := emitted st @ events \<rparr>"
        "sample_times events = []" "sample_temperatures events = []"
    | (dive) "samples_dive_sample parser i off st = (c, st')"
        "record_type (base_data parser) (pnf parser) off = Inr LOG_RECORD_DIVE_SAMPLE"
        "array_isequal (base_data parser) off (samplesize parser) 0 = Inr False"
proof (cases "record_type (base_data parser) (pnf parser) off")
  case (Inl e)
  then have "st' = st" "c = Fail e" using assms by (simp_all add: samples_record_def Let_def)
  moreover have "e \<noteq> DC_STATUS_SUCCESS" using Inl by (auto simp: record_type_def u8_eq_Inl split: if_splits)
  ultimately show ?thesis using skip by simp
next
  case (Inr type)
  have ty: "type = LOG_RECORD_DIVE_SAMPLE" if "pnf parser = 0"
    using Inr that by (simp add: record_type_def)
  consider (a) "pnf parser \<noteq> 0" "type = LOG_RECORD_FINAL"
    | (b) "pnf parser \<noteq> 0" "type = LOG_RECORD_INFO_EVENT"
    | (c) "pnf parser \<noteq> 0" "type \<noteq> LOG_RECORD_DIVE_SAMPLE" "type \<noteq> LOG_RECORD_FINAL"
          "type \<noteq> LOG_RECORD_INFO_EVENT"
    | (d) "type = LOG_RECORD_DIVE_SAMPLE"
    using ty by blast
  then show ?thesis
  proof cases
    case a
    have eq: "(c, st') = on_read st (u8 (base_data parser) (off + 1))
        (\<lambda>marker. if marker = 0xFD then (Break, st) else (Continue, st))"
      using assms Inr a
      by (simp add: samples_record_def Let_def dive_sample_type_neq cong: if_cong)
    show ?thesis
    proof (cases "u8 (base_data parser) (off + 1)")
      case (Inl e)
      then have "c = Fail e" "st' = st" using eq by simp_all
      moreover have "e \<noteq> DC_STATUS_SUCCESS" using Inl by (simp add: u8_eq_Inl)
      ultimately show ?thesis using skip by simp
    next
      case (Inr marker)
      then show ?thesis using eq skip by (cases "marker = 0xFD") simp_all
    qed
  next
    case b
    have eq: "(c, st') = on_read st (sample_info_event parser off) (\<lambda>events.
        (Continue, st \<lparr> emitted := emitted st @ events \<rparr>))"
      using assms Inr b
      by (simp add: samples_record_def Let_def dive_sample_type_neq)
    show ?thesis
    proof (cases "sample_info_event parser off")
      case (Inl e)
      then have "c = Fail e" "st' = st" using eq by simp_all
      moreover have "e \<noteq> DC_STATUS_SUCCESS"
        using not_success[OF fails_within_sample_info_event Inl] .
      ultimately show ?thesis using skip by simp
    next
      case (Inr events)
      then have "c = Continue" "st' = st \<lparr> emitted := emitted st @ events \<rparr>" using eq by simp_all
      then show ?thesis using event sample_info_event_Inr[OF Inr] by blast
    qed
  next
    case c
    have "(c, st') = (Continue, st)"
      using assms Inr c by (simp add: samples_record_def Let_def)
    then show ?thesis using skip by simp
  next
    case d
    have "samples_record parser i off st =
        on_read st (array_isequal (base_data parser) off (samplesize parser) 0x00)
          (\<lambda>empty. if empty then (Continue, st) else samples_dive_sample parser i off st)"
      using Inr d by (simp add: samples_record_def Let_def dive_sample_type_neq)
    then have eq: "(c, st') = on_read st (array_isequal (base_data parser) off (samplesize parser) 0x00)
        (\<lambda>empty. if empty then (Continue, st) else samples_dive_sample parser i off st)"
      using assms by simp
    show ?thesis
    proof (cases "array_isequal (base_data parser) off (samplesize parser) 0x00")
      case (Inl e)
      then have "c = Fail e" "st' = st" using eq by simp_all
      moreover have "e \<noteq> DC_STATUS_SUCCESS" using Inl by (simp add: array_isequal_eq_Inl)
      ultimately show ?thesis using skip by simp
    next
      case e: (Inr empty)
      show ?thesis
      proof (cases empty)
        case True
        then show ?thesis using eq e skip by simp
      next
        case False
        then have "samples_dive_sample parser i off st = (c, st')" using eq e by simp
        then show ?thesis using dive Inr d e False by simp
      qed
    qed
  qed
qed

lemma samples_record_dive:
  assumes "record_type (base_data parser) (pnf parser) off = Inr LOG_RECORD_DIVE_SAMPLE"
    and "array_isequal (base_data parser) off (samplesize parser) 0 = Inr False"
  shows "samples_record parser i off st = samples_dive_sample parser i off st"
  using assms
  by (simp add: samples_record_def Let_def dive_sample_type_neq)

lemma samples_record_Break:
  assumes "samples_record parser i off st = (Break, st')"
  shows "pnf parser \<noteq> 0 \<and> u8 (base_data parser) off = Inr LOG_RECORD_FINAL \<and>
         u8 (base_data parser) (off + 1) = Inr 0xFD"
proof (cases "pnf parser \<noteq> 0 \<and> u8 (base_data parser) off = Inr LOG_RECORD_FINAL \<and>
         u8 (base_data parser) (off + 1) = Inr 0xFD")
  case False
  have "fst (samples_record parser i off st) \<noteq> Break"
  proof (cases "record_type (base_data parser) (pnf parser) off")
    case (Inl e)
    then show ?thesis by (simp add: samples_record_def Let_def)
  next
    case (Inr type)
    have k: "fst (on_read st m f) \<noteq> Break" if "\<And>x. fst (f x) \<noteq> Break" for m :: "dc_status_t + 'z" and f
      using that by (cases m) simp_all
    have d': "fst (samples_dive_sample parser i off st) \<noteq> Break"
    proof -
      obtain c st1 where p: "samples_dive_sample parser i off st = (c, st1)"
        by (cases "samples_dive_sample parser i off st") auto
      from p have "c \<noteq> Break" by (cases rule: samples_dive_sample_cases) auto
      then show ?thesis using p by simp
    qed
    show ?thesis
    proof (cases "pnf parser \<noteq> 0 \<and> type = LOG_RECORD_FINAL")
      case True
      then have u: "u8 (base_data parser) off = Inr LOG_RECORD_FINAL"
        using Inr by (simp add: record_type_def)
      show ?thesis
      proof (cases "u8 (base_data parser) (off + 1)")
        case (Inl e)
        then show ?thesis using Inr True by (simp add: samples_record_def Let_def)
      next
        case m: (Inr marker)
        then have "marker \<noteq> 0xFD" using False True u by auto
        then show ?thesis using Inr True m
          by (simp add: samples_record_def Let_def dive_sample_type_neq)
      qed
    next
      case nf: False
      have ty: "type = LOG_RECORD_DIVE_SAMPLE" if "pnf parser = 0"
        using Inr that by (simp add: record_type_def)
      consider (b) "pnf parser \<noteq> 0" "type = LOG_RECORD_INFO_EVENT"
        | (c) "pnf parser \<noteq> 0" "type \<noteq> LOG_RECORD_DIVE_SAMPLE" "type \<noteq> LOG_RECORD_INFO_EVENT"
        | (d) "type = LOG_RECORD_DIVE_SAMPLE"
        using ty by blast
      then show ?thesis
      proof cases
        case b
        have "samples_record parser i off st = on_read st (sample_info_event parser off) (\<lambda>events.
            (Continue, st \<lparr> emitted := emitted st @ events \<rparr>))"
          using Inr b by (simp add: samples_record_def Let_def dive_sample_type_neq)
        then show ?thesis by (simp add: k)
      next
        case c
        have "samples_record parser i off st = (Continue, st)"
          using Inr c nf by (simp add: samples_record_def Let_def)
        then show ?thesis by simp
      next
        case d
        have "samples_record parser i off st =
            on_read st (array_isequal (base_data parser) off (samplesize parser) 0x00)
              (\<lambda>empty. if empty then (Continue, st) else samples_dive_sample parser i off st)"
          using Inr d by (simp add: samples_record_def Let_def dive_sample_type_neq)
        then show ?thesis using d' by (simp add: k)
      qed
    qed
  qed
  then show ?thesis using assms by simp
qed simp

text \<open>The replay loop, one record at a time.\<close>

lemma samples_loop_stop:
  "\<not> (off + samplesize parser \<le> len \<and> 0 < samplesize parser) \<Longrightarrow>
   samples_loop parser i len off st = (DC_STATUS_SUCCESS, st)"
  by (subst samples_loop.simps) auto

lemma samples_loop_step:
  "off + samplesize parser \<le> len \<Longrightarrow> 0 < samplesize parser \<Longrightarrow>
   samples_record parser i off st = (c, st1) \<Longrightarrow>
   samples_loop parser i len off st =
     (case c of Continue \<Rightarrow> samples_loop parser i len (off + samplesize parser) st1
      | Break \<Rightarrow> (DC_STATUS_SUCCESS, st1) | Fail e \<Rightarrow> (e, st1))"
  by (subst samples_loop.simps) simp

lemma samples_loop_invariant:
  "samples_loop parser i len off st = (rc, st') \<Longrightarrow> P st \<Longrightarrow>
   (\<And>off st c st'. P st \<Longrightarrow> samples_record parser i off st = (c, st') \<Longrightarrow> P st') \<Longrightarrow> P st'"
proof (induction parser i len off st rule: samples_loop.induct)
  case (1 parser i len off st)
  show ?case
  proof (cases "off + samplesize parser \<le> len \<and> 0 < samplesize parser")
    case False
    then have "st' = st" using "1.prems"(1) by (simp add: samples_loop_stop)
    then show ?thesis using "1.prems"(2) by simp
  next
    case True
    obtain c st1 where r: "samples_record parser i off st = (c, st1)"
      by (cases "samples_record parser i off st") auto
    have P1: "P st1" using "1.prems"(3)[OF "1.prems"(2) r] .
    have u: "(rc, st') =
        (case c of Continue \<Rightarrow> samples_loop parser i len (off + samplesize parser) st1
         | Break \<Rightarrow> (DC_STATUS_SUCCESS, st1) | Fail e \<Rightarrow> (e, st1))"
      using True r "1.prems"(1) samples_loop_step by metis
    show ?thesis
    proof (cases c)
      case Continue
      then have l: "samples_loop parser i len (off + samplesize parser) st1 = (rc, st')"
        using u by simp
      show ?thesis using "1.IH"[OF True r[symmetric] Continue l P1 "1.prems"(3)] .
    next
      case Break
      then have "st' = st1" using u by simp
      then show ?thesis using P1 by simp
    next
      case (Fail e)
      then have "st' = st1" using u by simp
      then show ?thesis using P1 by simp
    qed
  qed
qed

lemma samples_record_extends:
  assumes "samples_record parser i off st = (c, st')"
  shows "\<exists>ext. emitted st' = emitted st @ ext"
  using assms
proof (cases rule: samples_record_cases)
  case dive
  then show ?thesis by (cases rule: samples_dive_sample_cases) auto
qed auto

lemma samples_record_not_Fail_success:
  assumes "samples_record parser i off st = (c, st')"
  shows "c \<noteq> Fail DC_STATUS_SUCCESS"
  using assms
proof (cases rule: samples_record_cases)
  case dive
  then show ?thesis
  proof (cases rule: samples_dive_sample_cases)
    case (fail_head e)
    then show ?thesis using not_success[OF fails_within_sample_head] by auto
  qed auto
qed auto

lemma samples_loop_extends:
  assumes "samples_loop parser i len off st = (rc, st')"
  shows "\<exists>ext. emitted st' = emitted st @ ext"
proof -
  have "\<exists>ext. emitted st' = emitted st @ ext"
  proof (rule samples_loop_invariant[OF assms, where P = "\<lambda>s. \<exists>ext. emitted s = emitted st @ ext"])
    show "\<exists>ext. emitted st = emitted st @ ext" by simp
  next
    fix off s c s'
    assume "\<exists>ext. emitted s = emitted st @ ext" and "samples_record parser i off s = (c, s')"
    then show "\<exists>ext. emitted s' = emitted st @ ext"
      using samples_record_extends by fastforce
  qed
  then show ?thesis .
qed

text \<open>
  The elapsed time is the interval times the number of time samples emitted, and the
  time samples count up by the interval.
\<close>

lemma samples_record_times:
  assumes "time_s st = i * length (sample_times (emitted st)) \<and>
           sample_times (emitted st) = map (\<lambda>k. i * k) [1..<Suc (length (sample_times (emitted st)))]"
    and "samples_record parser i off st = (c, st')"
  shows "time_s st' = i * length (sample_times (emitted st')) \<and>
         sample_times (emitted st') = map (\<lambda>k. i * k) [1..<Suc (length (sample_times (emitted st')))]"
  using assms(2)
proof (cases rule: samples_record_cases)
  case skip
  then show ?thesis using assms(1) by simp
next
  case (event events)
  then show ?thesis using assms(1) by simp
next
  case dive
  from dive(1) show ?thesis
  proof (cases rule: samples_dive_sample_cases)
    case (fail_head e)
    then show ?thesis using assms(1) by simp
  next
    case (emit head rest)
    obtain hrest where h: "sample_times head = [time_s st + i] @ sample_times hrest"
      "sample_times hrest = []"
      using sample_head_Inr[OF emit(1)] by auto
    define n where "n = length (sample_times (emitted st))"
    have t: "sample_times (emitted st') = sample_times (emitted st) @ [i * Suc n]"
      using emit(3,4) h assms(1) by (simp add: n_def)
    have len: "length (sample_times (emitted st')) = Suc n" using t by (simp add: n_def)
    have "map (\<lambda>k. i * k) [1..<Suc (Suc n)] = map (\<lambda>k. i * k) [1..<Suc n] @ [i * Suc n]"
      by simp
    then have "sample_times (emitted st') = map (\<lambda>k. i * k) [1..<Suc (Suc n)]"
      using t assms(1) by (simp add: n_def)
    moreover have "time_s st' = i * Suc n" using emit(2) assms(1) by (simp add: n_def)
    ultimately show ?thesis using len by simp
  qed
qed

text \<open>
  Every temperature sample emitted is the folded temperature byte of some record.
\<close>

lemma samples_record_temperatures:
  assumes "\<forall>tv \<in> set (sample_temperatures (emitted st)). \<exists>off.
             off + pnf parser + 13 < length (base_data parser) \<and>
             tv = Temperature_byte (sample_temperature (base_data parser ! (off + pnf parser + 13)))
                    (units parser)"
    and "samples_record parser i off st = (c, st')"
  shows "\<forall>tv \<in> set (sample_temperatures (emitted st')). \<exists>off.
             off + pnf parser + 13 < length (base_data parser) \<and>
             tv = Temperature_byte (sample_temperature (base_data parser ! (off + pnf parser + 13)))
                    (units parser)"
  using assms(2)
proof (cases rule: samples_record_cases)
  case skip
  then show ?thesis using assms(1) by simp
next
  case (event events)
  then show ?thesis using assms(1) by simp
next
  case dive
  from dive(1) show ?thesis
  proof (cases rule: samples_dive_sample_cases)
    case (fail_head e)
    then show ?thesis using assms(1) by simp
  next
    case (emit head rest)
    obtain hrest where h: "sample_temperatures head =
        [Temperature_byte (sample_temperature (base_data parser ! (off + pnf parser + 13)))
           (units parser)] @ sample_temperatures hrest"
      "sample_temperatures hrest = []" "off + pnf parser + 13 < length (base_data parser)"
      using sample_head_Inr[OF emit(1)] by auto
    have "sample_temperatures (emitted st') = sample_temperatures (emitted st) @
        [Temperature_byte (sample_temperature (base_data parser ! (off + pnf parser + 13)))
           (units parser)]"
      using emit(3,5) h by simp
    then show ?thesis using assms(1) h(3) by auto
  qed
qed

text \<open>
  A successful replay has run the dive sample at every record of the sweep that is a
  dive sample and not empty, unless the final record came before it.
\<close>

lemma samples_loop_dive_sample:
  "samples_loop parser i len start st = (DC_STATUS_SUCCESS, st') \<Longrightarrow>
   swept start (samplesize parser) len off \<Longrightarrow> 0 < samplesize parser \<Longrightarrow>
   record_type (base_data parser) (pnf parser) off = Inr LOG_RECORD_DIVE_SAMPLE \<Longrightarrow>
   array_isequal (base_data parser) off (samplesize parser) 0 = Inr False \<Longrightarrow>
   \<forall>off'. swept start (samplesize parser) len off' \<and> off' < off \<longrightarrow>
       \<not> (pnf parser \<noteq> 0 \<and> u8 (base_data parser) off' = Inr LOG_RECORD_FINAL \<and>
          u8 (base_data parser) (off' + 1) = Inr 0xFD) \<Longrightarrow>
   P st \<Longrightarrow>
   (\<And>off st c st'. P st \<Longrightarrow> samples_record parser i off st = (c, st') \<Longrightarrow> P st') \<Longrightarrow>
   \<exists>st0 st1 post. P st0 \<and> samples_dive_sample parser i off st0 = (Continue, st1) \<and>
      emitted st' = emitted st1 @ post"
proof (induction parser i len start st rule: samples_loop.induct)
  case (1 parser i len start st)
  have g: "start + samplesize parser \<le> len \<and> 0 < samplesize parser"
    using "1.prems"(2,3) swept_guard by blast
  obtain c st1 where r: "samples_record parser i start st = (c, st1)"
    by (cases "samples_record parser i start st") auto
  have P1: "P st1" using "1.prems"(8)[OF "1.prems"(7) r] .
  have u: "(DC_STATUS_SUCCESS, st') =
      (case c of Continue \<Rightarrow> samples_loop parser i len (start + samplesize parser) st1
       | Break \<Rightarrow> (DC_STATUS_SUCCESS, st1) | Fail e \<Rightarrow> (e, st1))"
    using g r "1.prems"(1) samples_loop_step by metis
  have nf: "c \<noteq> Fail e" for e
  proof
    assume f: "c = Fail e"
    then have "e = DC_STATUS_SUCCESS" using u by simp
    then show False using samples_record_not_Fail_success[OF r] f by simp
  qed
  from swept_cases[OF "1.prems"(2,3)] show ?case
  proof
    assume eq: "off = start"
    have d: "samples_dive_sample parser i off st = (c, st1)"
      using samples_record_dive[OF "1.prems"(4,5)] r eq by simp
    have "c \<noteq> Break"
    proof
      assume "c = Break"
      then have b: "pnf parser \<noteq> 0" "u8 (base_data parser) start = Inr LOG_RECORD_FINAL"
        using samples_record_Break[of parser i start st st1] r by simp_all
      have "record_type (base_data parser) (pnf parser) start = Inr LOG_RECORD_FINAL"
        using b by (simp add: record_type_def)
      then show False using "1.prems"(4) eq by (simp add: dive_sample_type_neq)
    qed
    then have c: "c = Continue" using nf by (cases c) auto
    then have "samples_loop parser i len (start + samplesize parser) st1 = (DC_STATUS_SUCCESS, st')"
      using u by simp
    then obtain post where "emitted st' = emitted st1 @ post"
      using samples_loop_extends by blast
    then show ?thesis using "1.prems"(7) d c by blast
  next
    assume sw: "swept (start + samplesize parser) (samplesize parser) len off"
    then have lt: "start < off" using g by (simp add: swept_def)
    have s0: "swept start (samplesize parser) len start" using g swept_first by blast
    have "c \<noteq> Break"
    proof
      assume "c = Break"
      then have "pnf parser \<noteq> 0 \<and> u8 (base_data parser) start = Inr LOG_RECORD_FINAL \<and>
         u8 (base_data parser) (start + 1) = Inr 0xFD"
        using samples_record_Break r by blast
      then show False using "1.prems"(6) s0 lt by blast
    qed
    then have c: "c = Continue" using nf by (cases c) auto
    then have l: "samples_loop parser i len (start + samplesize parser) st1 = (DC_STATUS_SUCCESS, st')"
      using u by simp
    have nb: "\<forall>off'. swept (start + samplesize parser) (samplesize parser) len off' \<and> off' < off \<longrightarrow>
       \<not> (pnf parser \<noteq> 0 \<and> u8 (base_data parser) off' = Inr LOG_RECORD_FINAL \<and>
          u8 (base_data parser) (off' + 1) = Inr 0xFD)"
      using "1.prems"(6) swept_later by blast
    show ?thesis
      using "1.IH"[OF g r[symmetric] c l sw "1.prems"(3,4,5) nb P1 "1.prems"(8)] .
  qed
qed

lemma sample_interval_Inl:
  "sample_interval parser = Inl e \<Longrightarrow> e = DC_STATUS_DATAFORMAT \<or> e = OUT_OF_BOUNDS"
  by (auto simp: sample_interval_def rbind_eq_Inl array_uint16_be_eq_Inl split: if_splits)

lemma samples_foreach_decomp:
  assumes "shearwater_predator_parser_cache parser0 = (DC_STATUS_SUCCESS, parser)"
    and "shearwater_predator_parser_samples_foreach parser0 = (rc, parser', samples)"
  shows "parser' = parser \<and>
    (case sample_interval parser of
       Inl e \<Rightarrow> rc = e \<and> samples = []
     | Inr i \<Rightarrow> \<exists>st. samples_loop parser i (usub32 (length (base_data parser)) (footersize parser))
           (headersize parser) \<lparr> time_s = 0, o2_previous_s = 0, he_previous_s = 0, emitted = [] \<rparr> =
             (rc, st) \<and> samples = emitted st)"
  using assms
  by (auto simp: shearwater_predator_parser_samples_foreach_def split: sum.splits prod.splits)

lemma samples_foreach_success:
  assumes "shearwater_predator_parser_samples_foreach parser0 = (DC_STATUS_SUCCESS, parser, samples)"
  shows "shearwater_predator_parser_cache parser0 = (DC_STATUS_SUCCESS, parser)"
proof -
  obtain rc0 p1 where c: "shearwater_predator_parser_cache parser0 = (rc0, p1)"
    by (cases "shearwater_predator_parser_cache parser0") auto
  have "rc0 = DC_STATUS_SUCCESS"
    using assms c by (auto simp: shearwater_predator_parser_samples_foreach_def split: if_splits)
  moreover have "p1 = parser"
    using assms c
    by (auto simp: shearwater_predator_parser_samples_foreach_def split: if_splits sum.splits prod.splits)
  ultimately show ?thesis using c by simp
qed

subsection \<open>Concrete runs\<close>

lemmas run_fixtures = pnf_buf_def opening_5_def pnf_sample_def pnf_cached_def

lemma cache_pnf_no_opening_5:
  "shearwater_predator_parser_cache (petrel_parser (pnf_buf [])) =
     (DC_STATUS_SUCCESS,
      pnf_cached [] [0, 32, 64, 96, 128, UNDEFINED, UNDEFINED]
        [160, 192, 224, 256, 288, UNDEFINED, UNDEFINED] 0
        (replicate 10 0) (replicate 10 0) DC_DIVEMODE_OC [])"
  by (simp add: run_fixtures run_consts run_parser run_reads run_cache)

lemma cache_pnf_interval_1500:
  "shearwater_predator_parser_cache (petrel_parser (pnf_buf [opening_5 0x05 0xDC])) =
     (DC_STATUS_SUCCESS,
      pnf_cached [opening_5 0x05 0xDC] [0, 32, 64, 96, 128, 160, UNDEFINED]
        [192, 224, 256, 288, 320, UNDEFINED, UNDEFINED] 0
        (replicate 10 0) (replicate 10 0) DC_DIVEMODE_OC [])"
  by (simp add: run_fixtures run_consts run_parser run_reads run_cache)

lemma cache_pnf_interval_2000:
  "shearwater_predator_parser_cache
     (petrel_parser (pnf_buf [opening_5 0x07 0xD0, pnf_sample 21 0 0x10, pnf_sample 50 0 0x10])) =
     (DC_STATUS_SUCCESS,
      pnf_cached [opening_5 0x07 0xD0, pnf_sample 21 0 0x10, pnf_sample 50 0 0x10]
        [0, 32, 64, 96, 128, 160, UNDEFINED]
        [256, 288, 320, 352, 384, UNDEFINED, UNDEFINED] 2
        [21, 50, 0, 0, 0, 0, 0, 0, 0, 0] (replicate 10 0) DC_DIVEMODE_OC [])"
  by (simp add: run_fixtures run_consts run_parser run_reads run_cache)

lemma samples_pnf_interval_2000:
  "shearwater_predator_parser_samples_foreach
     (petrel_parser (pnf_buf [opening_5 0x07 0xD0, pnf_sample 21 0 0x10, pnf_sample 50 0 0x10])) =
     (DC_STATUS_SUCCESS,
      pnf_cached [opening_5 0x07 0xD0, pnf_sample 21 0 0x10, pnf_sample 50 0 0x10]
        [0, 32, 64, 96, 128, 160, UNDEFINED]
        [256, 288, 320, 352, 384, UNDEFINED, UNDEFINED] 2
        [21, 50, 0, 0, 0, 0, 0, 0, 0, 0] (replicate 10 0) DC_DIVEMODE_OC [],
      [DC_SAMPLE_TIME 2, DC_SAMPLE_DEPTH (Depth_tenths 100 0),
       DC_SAMPLE_TEMPERATURE (Temperature_byte 20 0), DC_SAMPLE_CNS 0,
       DC_SAMPLE_GASMIX 0, DC_SAMPLE_DECO DC_DECO_NDL 0 0 0, DC_SAMPLE_RBT 0,
       DC_SAMPLE_TIME 4, DC_SAMPLE_DEPTH (Depth_tenths 100 0),
       DC_SAMPLE_TEMPERATURE (Temperature_byte 20 0), DC_SAMPLE_CNS 0,
       DC_SAMPLE_GASMIX 1, DC_SAMPLE_DECO DC_DECO_NDL 0 0 0, DC_SAMPLE_RBT 0])"
  apply (simp only: shearwater_predator_parser_samples_foreach_def cache_pnf_interval_2000)
  apply (simp add: run_fixtures run_consts run_parser run_reads run_samples find_gasmix_from.simps)
  done


lemma predator_parser_new: "predator_parser buf = new_parser PREDATOR 0 0 buf"
  by (simp add: predator_parser_def new_parser_def shearwater_predator_parser_create_def)


lemma cache_pnf_freedive_last:
  "shearwater_predator_parser_cache
     (petrel_parser (pnf_buf [pnf_sample 21 0 0x00, [0x02, 1]])) =
     (DC_STATUS_SUCCESS,
      pnf_cached [pnf_sample 21 0 0x00, [0x02, 1]]
        [0, 32, 64, 96, 128, UNDEFINED, UNDEFINED]
        [224, 256, 288, 320, 352, UNDEFINED, UNDEFINED] 1
        [21, 0, 0, 0, 0, 0, 0, 0, 0, 0] (replicate 10 0) DC_DIVEMODE_FREEDIVE
        [(''PPO2 source'', Literal ''cells'')])"
  by (simp add: run_fixtures run_consts run_parser run_reads run_cache)

lemmas run_legacy = legacy_buf_def cold_sample_def colder_sample_def legacy_cached_def

lemma cache_legacy_cold:
  "shearwater_predator_parser_cache (predator_parser (legacy_buf [cold_sample, colder_sample])) =
     (DC_STATUS_SUCCESS,
      legacy_cached [cold_sample, colder_sample] 1 [21, 0, 0, 0, 0, 0, 0, 0, 0, 0])"
  by (simp add: run_legacy run_consts run_parser run_reads run_cache)

lemma samples_legacy_cold:
  "shearwater_predator_parser_samples_foreach
     (predator_parser (legacy_buf [cold_sample, colder_sample])) =
     (DC_STATUS_SUCCESS,
      legacy_cached [cold_sample, colder_sample] 1 [21, 0, 0, 0, 0, 0, 0, 0, 0, 0],
      [DC_SAMPLE_TIME 10, DC_SAMPLE_DEPTH (Depth_tenths 100 0),
       DC_SAMPLE_TEMPERATURE (Temperature_byte 0 0), DC_SAMPLE_GASMIX 0,
       DC_SAMPLE_DECO DC_DECO_NDL 0 0 0,
       DC_SAMPLE_TIME 20, DC_SAMPLE_DEPTH (Depth_tenths 100 0),
       DC_SAMPLE_TEMPERATURE (Temperature_byte (- 26) 0),
       DC_SAMPLE_DECO DC_DECO_NDL 0 0 0])"
  apply (simp only: shearwater_predator_parser_samples_foreach_def cache_legacy_cold)
  apply (simp add: run_legacy run_consts run_parser run_reads run_samples find_gasmix_from.simps)
  done

lemma legacy_cold_layout:
  "pnf (legacy_cached [cold_sample, colder_sample] n ox) = 0"
  "samplesize (legacy_cached [cold_sample, colder_sample] n ox) = 16"
  "headersize (legacy_cached [cold_sample, colder_sample] n ox) = 128"
  "footersize (legacy_cached [cold_sample, colder_sample] n ox) = 128"
  "units (legacy_cached [cold_sample, colder_sample] n ox) = 0"
  "logversion (legacy_cached [cold_sample, colder_sample] n ox) = 0"
  "base_data (legacy_cached [cold_sample, colder_sample] n ox) = legacy_buf [cold_sample, colder_sample]"
  "length (legacy_buf [cold_sample, colder_sample]) = 288"
  by (simp_all add: run_legacy run_parser run_consts length_records)

lemma pnf_cached_layout:
  "pnf (pnf_cached middle ov cv n ox he md ex) = 1"
  "samplesize (pnf_cached middle ov cv n ox he md ex) = 32"
  "headersize (pnf_cached middle ov cv n ox he md ex) = 0"
  "footersize (pnf_cached middle ov cv n ox he md ex) = 0"
  "units (pnf_cached middle ov cv n ox he md ex) = 0"
  "logversion (pnf_cached middle ov cv n ox he md ex) = 9"
  "opening (pnf_cached middle ov cv n ox he md ex) = ov"
  "base_data (pnf_cached middle ov cv n ox he md ex) = pnf_buf middle"
  by (simp_all add: pnf_cached_def run_parser run_consts)

section \<open>The claims\<close>

text \<open>
  C5. The replay decodes the temperature of a dive sample from the byte at offset 13
  of the record, read as a signed char: a negative value has 102 added and is then
  clamped to 0 when the sum is positive, a value that is not negative is kept. So the raw
  byte \<open>0xFF\<close> (signed -1) folds to 101 and is clamped to 0, and a negative raw byte never
  gives a positive temperature. A successful replay emits, for every record of the
  sweep that is a dive sample and not empty (and not behind the final record), the
  temperature sample with this value before the unit conversion; and every temperature
  sample it emits is this value of some byte of the buffer.
\<close>

theorem temperature_fold:
  assumes "shearwater_predator_parser_samples_foreach parser0 = (DC_STATUS_SUCCESS, parser, samples)"
  shows "(0 < samplesize parser \<and>
          swept (headersize parser) (samplesize parser)
            (usub32 (length (base_data parser)) (footersize parser)) off \<and>
          record_type (base_data parser) (pnf parser) off = Inr LOG_RECORD_DIVE_SAMPLE \<and>
          array_isequal (base_data parser) off (samplesize parser) 0 = Inr False \<and>
          (\<forall>off'. swept (headersize parser) (samplesize parser)
                    (usub32 (length (base_data parser)) (footersize parser)) off' \<and> off' < off \<longrightarrow>
             \<not> (pnf parser \<noteq> 0 \<and> u8 (base_data parser) off' = Inr LOG_RECORD_FINAL \<and>
                u8 (base_data parser) (off' + 1) = Inr 0xFD)) \<longrightarrow>
            off + pnf parser + 13 < length (base_data parser) \<and>
            DC_SAMPLE_TEMPERATURE
              (Temperature_byte (sample_temperature (base_data parser ! (off + pnf parser + 13)))
                 (units parser)) \<in> set samples) \<and>
         (\<forall>tv. DC_SAMPLE_TEMPERATURE tv \<in> set samples \<longrightarrow>
            (\<exists>j<length (base_data parser).
               tv = Temperature_byte (sample_temperature (base_data parser ! j)) (units parser))) \<and>
         sample_temperature b = (if sint b < 0 then min 0 (sint b + 102) else sint b) \<and>
         (sint b < 0 \<longrightarrow> sample_temperature b \<le> 0) \<and>
         sint (0xFF :: byte) + 102 = 101 \<and> sample_temperature 0xFF = 0"
proof -
  let ?len = "usub32 (length (base_data parser)) (footersize parser)"
  let ?init = "\<lparr> time_s = 0, o2_previous_s = 0, he_previous_s = 0, emitted = [] \<rparr>"
  let ?T = "\<lambda>st. \<forall>tv \<in> set (sample_temperatures (emitted st)). \<exists>off.
             off + pnf parser + 13 < length (base_data parser) \<and>
             tv = Temperature_byte (sample_temperature (base_data parser ! (off + pnf parser + 13)))
                    (units parser)"
  have c: "shearwater_predator_parser_cache parser0 = (DC_STATUS_SUCCESS, parser)"
    using samples_foreach_success[OF assms] .
  obtain i st where loop: "samples_loop parser i ?len (headersize parser) ?init = (DC_STATUS_SUCCESS, st)"
    and s: "samples = emitted st"
  proof (cases "sample_interval parser")
    case (Inl e)
    then have "e = DC_STATUS_SUCCESS" using samples_foreach_decomp[OF c assms] by simp
    then show ?thesis using sample_interval_Inl[OF Inl] by simp
  next
    case (Inr i)
    then show ?thesis using samples_foreach_decomp[OF c assms] that by auto
  qed
  have emit: "off + pnf parser + 13 < length (base_data parser) \<and>
            DC_SAMPLE_TEMPERATURE
              (Temperature_byte (sample_temperature (base_data parser ! (off + pnf parser + 13)))
                 (units parser)) \<in> set samples"
    if ss: "0 < samplesize parser"
      and sw: "swept (headersize parser) (samplesize parser) ?len off"
      and ty: "record_type (base_data parser) (pnf parser) off = Inr LOG_RECORD_DIVE_SAMPLE"
      and ne: "array_isequal (base_data parser) off (samplesize parser) 0 = Inr False"
      and nb: "\<forall>off'. swept (headersize parser) (samplesize parser) ?len off' \<and> off' < off \<longrightarrow>
             \<not> (pnf parser \<noteq> 0 \<and> u8 (base_data parser) off' = Inr LOG_RECORD_FINAL \<and>
                u8 (base_data parser) (off' + 1) = Inr 0xFD)"
  proof -
    have "\<exists>st0 st1 post. True \<and>
        samples_dive_sample parser i off st0 = (Continue, st1) \<and> emitted st = emitted st1 @ post"
      by (rule samples_loop_dive_sample[OF loop sw ss ty ne nb, where P = "\<lambda>_. True"]) simp_all
    then obtain st0 st1 post where
      d: "samples_dive_sample parser i off st0 = (Continue, st1)"
      and e: "emitted st = emitted st1 @ post"
      by blast
    from d show ?thesis
    proof (cases rule: samples_dive_sample_cases)
      case (fail_head e)
      then show ?thesis by simp
    next
      case (emit head rest)
      obtain depth hrest where b: "off + pnf parser + 13 < length (base_data parser)"
        and h: "head = [DC_SAMPLE_TIME (time_s st0 + i),
                 DC_SAMPLE_DEPTH (Depth_tenths depth (units parser)),
                 DC_SAMPLE_TEMPERATURE
                   (Temperature_byte (sample_temperature (base_data parser ! (off + pnf parser + 13)))
                      (units parser))] @ hrest"
        using sample_head_Inr[OF emit(1)] by blast
      show ?thesis using b s e emit(3) h by simp
    qed
  qed
  have inv: "?T st"
  proof (rule samples_loop_invariant[OF loop, where P = ?T])
    show "?T ?init" by simp
  next
    fix o1 st1 c1 st2
    assume "?T st1" and "samples_record parser i o1 st1 = (c1, st2)"
    then show "?T st2" by (rule samples_record_temperatures)
  qed
  have sound: "\<exists>j<length (base_data parser).
      tv = Temperature_byte (sample_temperature (base_data parser ! j)) (units parser)"
    if "DC_SAMPLE_TEMPERATURE tv \<in> set samples" for tv
  proof -
    have "tv \<in> set (sample_temperatures (emitted st))"
      using that s by (simp add: set_sample_temperatures)
    then obtain o1 where "o1 + pnf parser + 13 < length (base_data parser)"
      "tv = Temperature_byte (sample_temperature (base_data parser ! (o1 + pnf parser + 13)))
                    (units parser)"
      using inv by blast
    then show ?thesis by blast
  qed
  have f1: "sample_temperature b = (if sint b < 0 then min 0 (sint b + 102) else sint b)"
    by (auto simp: sample_temperature_def Let_def)
  have f2: "sint b < 0 \<longrightarrow> sample_temperature b \<le> 0"
    by (auto simp: sample_temperature_def Let_def)
  have f3: "sint (0xFF :: byte) + 102 = 101 \<and> sample_temperature 0xFF = 0"
    by (simp add: sample_temperature_def)
  show ?thesis
  proof (intro conjI impI allI)
    assume h: "0 < samplesize parser \<and>
          swept (headersize parser) (samplesize parser) ?len off \<and>
          record_type (base_data parser) (pnf parser) off = Inr LOG_RECORD_DIVE_SAMPLE \<and>
          array_isequal (base_data parser) off (samplesize parser) 0 = Inr False \<and>
          (\<forall>off'. swept (headersize parser) (samplesize parser) ?len off' \<and> off' < off \<longrightarrow>
             \<not> (pnf parser \<noteq> 0 \<and> u8 (base_data parser) off' = Inr LOG_RECORD_FINAL \<and>
                u8 (base_data parser) (off' + 1) = Inr 0xFD))"
    have e: "off + pnf parser + 13 < length (base_data parser) \<and>
            DC_SAMPLE_TEMPERATURE
              (Temperature_byte (sample_temperature (base_data parser ! (off + pnf parser + 13)))
                 (units parser)) \<in> set samples"
      using h by (intro emit) blast+
    show "off + pnf parser + 13 < length (base_data parser)" using e by blast
    show "DC_SAMPLE_TEMPERATURE
              (Temperature_byte (sample_temperature (base_data parser ! (off + pnf parser + 13)))
                 (units parser)) \<in> set samples" using e by blast
  next
    fix tv assume "DC_SAMPLE_TEMPERATURE tv \<in> set samples"
    then show "\<exists>j<length (base_data parser).
      tv = Temperature_byte (sample_temperature (base_data parser ! j)) (units parser)"
      by (rule sound)
  next
    show "sample_temperature b = (if sint b < 0 then min 0 (sint b + 102) else sint b)" by (rule f1)
  next
    assume "sint b < 0" then show "sample_temperature b \<le> 0" using f2 by blast
  next
    show "sint (0xFF :: byte) + 102 = 101" using f3 by blast
  next
    show "sample_temperature 0xFF = 0" using f3 by blast
  qed
qed

theorem temperature_fold_witness:
  "fst (shearwater_predator_parser_samples_foreach
          (predator_parser (legacy_buf [cold_sample, colder_sample]))) = DC_STATUS_SUCCESS \<and>
   legacy_buf [cold_sample, colder_sample] ! (128 + 0 + 13) = 0xFF \<and>
   sint (0xFF :: byte) < 0 \<and> sample_temperature 0xFF = min 0 (sint (0xFF :: byte) + 102) \<and>
   DC_SAMPLE_TEMPERATURE (Temperature_byte 0 0) \<in>
     set (snd (snd (shearwater_predator_parser_samples_foreach
                      (predator_parser (legacy_buf [cold_sample, colder_sample]))))) \<and>
   legacy_buf [cold_sample, colder_sample] ! (144 + 0 + 13) = 0x80 \<and>
   sample_temperature 0x80 = - 26 \<and>
   DC_SAMPLE_TEMPERATURE (Temperature_byte (- 26) 0) \<in>
     set (snd (snd (shearwater_predator_parser_samples_foreach
                      (predator_parser (legacy_buf [cold_sample, colder_sample])))))"
proof -
  let ?B = "legacy_buf [cold_sample, colder_sample]"
  let ?S = "snd (snd (shearwater_predator_parser_samples_foreach (predator_parser ?B)))"
  have sw1: "swept 128 16 (usub32 288 128) 128" by (simp add: swept_def usub32_def)
  have sw2: "swept 128 16 (usub32 288 128) 144" by (simp add: swept_def usub32_def)
  have ty: "record_type ?B 0 off = Inr LOG_RECORD_DIVE_SAMPLE" for off
    by (simp add: record_type_def)
  have ne1: "array_isequal ?B 128 16 0 = Inr False" by (simp add: run_legacy run_reads)
  have ne2: "array_isequal ?B 144 16 0 = Inr False" by (simp add: run_legacy run_reads)
  have b1: "?B ! (128 + 0 + 13) = 0xFF" by (simp add: run_legacy nth_records)
  have b2: "?B ! (144 + 0 + 13) = 0x80" by (simp add: run_legacy nth_records)
  have t1: "DC_SAMPLE_TEMPERATURE (Temperature_byte (sample_temperature (?B ! (128 + 0 + 13))) 0) \<in> set ?S \<and>
      sample_temperature 0xFF = (if sint (0xFF :: byte) < 0 then min 0 (sint (0xFF :: byte) + 102)
                                 else sint (0xFF :: byte)) \<and>
      sample_temperature 0xFF = 0"
    using temperature_fold[OF samples_legacy_cold, of 128 "0xFF"] sw1 ty ne1
    by (simp add: legacy_cold_layout samples_legacy_cold)
  have t2: "DC_SAMPLE_TEMPERATURE (Temperature_byte (sample_temperature (?B ! (144 + 0 + 13))) 0) \<in> set ?S \<and>
      sample_temperature 0x80 = (if sint (0x80 :: byte) < 0 then min 0 (sint (0x80 :: byte) + 102)
                                 else sint (0x80 :: byte))"
    using temperature_fold[OF samples_legacy_cold, of 144 "0x80"] sw2 ty ne2
    by (simp add: legacy_cold_layout samples_legacy_cold)
  have s80: "sint (0x80 :: byte) = - 128" by simp
  have sFF: "sint (0xFF :: byte) = - 1" by simp
  have v1: "sample_temperature 0xFF = 0" using t1 by blast
  have v2: "sample_temperature 0x80 = - 26" using t2 s80 by simp
  have m1: "DC_SAMPLE_TEMPERATURE (Temperature_byte 0 0) \<in> set ?S"
    using t1 unfolding b1 v1 by blast
  have m2: "DC_SAMPLE_TEMPERATURE (Temperature_byte (- 26) 0) \<in> set ?S"
    using t2 unfolding b2 v2 by blast
  have f: "fst (shearwater_predator_parser_samples_foreach (predator_parser ?B)) = DC_STATUS_SUCCESS"
    by (simp add: samples_legacy_cold)
  have c: "sint (0xFF :: byte) < 0 \<and> sample_temperature 0xFF = min 0 (sint (0xFF :: byte) + 102)"
    using v1 sFF by simp
  show ?thesis using f b1 c m1 b2 v2 m2 by blast
qed

text \<open>
  C10. The decoder \<open>battery_state\<close> returns only 0, 1, 2 or 4, for every input word:
  it returns 0 when the top 12 bits are all set (\<open>0xFFF0\<close> and above) and when the
  state nibble is above 2. Hence the two masks that the sweep accumulates with OR
  from the initial value 0 never exceed 7, and they index the 8-entry table \<open>states\<close>
  within its bounds.
\<close>

theorem battery_mask_bounded:
  "battery_state_bits w \<in> {0, 1, 2, 4} \<and>
   (w AND 0xFFF0 = 0xFFF0 \<longrightarrow> battery_state_bits w = 0) \<and>
   (2 < drop_bit 12 w \<longrightarrow> battery_state_bits w = 0) \<and>
   (battery_state data i = Inr b \<longrightarrow> b \<in> {0, 1, 2, 4}) \<and>
   (cache_loop pnf_v length_v offset (parser, cache_locals_init) = (rc, s') \<longrightarrow>
      t1_battery (snd s') \<le> 7 \<and> t2_battery (snd s') \<le> 7 \<and>
      t1_battery (snd s') < length states \<and> t2_battery (snd s') < length states)"
proof -
  have 1: "battery_state_bits w \<in> {0, 1, 2, 4}" for w
    using battery_state_bits_cases[of w] by auto
  have 2: "w AND 0xFFF0 = 0xFFF0 \<longrightarrow> battery_state_bits w = 0"
    by (simp add: battery_state_bits_def)
  have 3: "2 < drop_bit 12 w \<longrightarrow> battery_state_bits w = 0"
    by (simp add: battery_state_bits_def Let_def)
  have 4: "battery_state data i = Inr b \<longrightarrow> b \<in> {0, 1, 2, 4}"
  proof
    assume "battery_state data i = Inr b"
    then obtain v where "b = battery_state_bits v" by (auto simp: battery_state_eq_Inr)
    then show "b \<in> {0, 1, 2, 4}" using 1[of v] by simp
  qed
  have 5: "t1_battery (snd s') \<le> 7 \<and> t2_battery (snd s') \<le> 7 \<and>
      t1_battery (snd s') < length states \<and> t2_battery (snd s') < length states"
    if "cache_loop pnf_v length_v offset (parser, cache_locals_init) = (rc, s')"
  proof -
    have "t1_battery (snd s') \<le> 7 \<and> t2_battery (snd s') \<le> 7"
      using cache_loop_battery[OF that] by (simp add: cache_locals_init_def)
    then show ?thesis by (simp add: states_def)
  qed
  show ?thesis using 1 2 3 4 5 by blast
qed

theorem battery_mask_bounded_witness:
  "(0xFFF5 :: nat) AND 0xFFF0 = 0xFFF0 \<and> battery_state_bits 0xFFF5 = 0 \<and>
   2 < drop_bit 12 (0x3064 :: nat) \<and> battery_state_bits 0x3064 = 0 \<and>
   battery_state battery_buf 27 = Inr 4 \<and>
   fst (cache_loop 0 16 0 (predator_parser battery_buf, cache_locals_init)) = DC_STATUS_SUCCESS \<and>
   t1_battery (snd (snd (cache_loop 0 16 0 (predator_parser battery_buf, cache_locals_init)))) = 4 \<and>
   t2_battery (snd (snd (cache_loop 0 16 0 (predator_parser battery_buf, cache_locals_init)))) = 2"
proof -
  have b: "battery_state battery_buf 27 = Inr 4"
    by (simp add: battery_buf_def cold_sample_def run_reads run_cache)
  show ?thesis
    using battery_mask_bounded [of "0xFFF5" battery_buf 27 4 0 16 0 "predator_parser battery_buf"
        "fst (cache_loop 0 16 0 (predator_parser battery_buf, cache_locals_init))"
        "snd (cache_loop 0 16 0 (predator_parser battery_buf, cache_locals_init))"]
      battery_mask_bounded [of "0x3064"] b
    by (simp add: battery_buf_def cold_sample_def run_consts run_parser run_reads run_cache)
qed

text \<open>
  C6 (amended). For an accumulated transmitter battery mask in 0..7, \<open>add_battery_info\<close>
  adds no descriptive string at all for the mask 0 (the empty string of the table is
  never used); for every mask with the critical bit set (2, 3, 6, 7) it adds
  "critical"; for 4 and 5 it adds "warning"; for 1 it adds "normal". Adding a string
  appends the pair of the label and the text while fewer than \<open>MAXSTRINGS\<close> strings are
  stored.
\<close>

theorem battery_info_strings:
  "add_battery_info parser desc 0 = parser \<and>
   add_battery_info parser desc 1 = add_string parser desc (Literal ''normal'') \<and>
   add_battery_info parser desc 2 = add_string parser desc (Literal ''critical'') \<and>
   add_battery_info parser desc 3 = add_string parser desc (Literal ''critical'') \<and>
   add_battery_info parser desc 4 = add_string parser desc (Literal ''warning'') \<and>
   add_battery_info parser desc 5 = add_string parser desc (Literal ''warning'') \<and>
   add_battery_info parser desc 6 = add_string parser desc (Literal ''critical'') \<and>
   add_battery_info parser desc 7 = add_string parser desc (Literal ''critical'') \<and>
   (length (strings parser) < MAXSTRINGS \<longrightarrow>
      strings (add_string parser desc v) = strings parser @ [(desc, v)])"
  by (simp add: add_battery_info_def states_def add_string_def)

theorem battery_info_strings_witness:
  "length (strings (predator_parser [])) < MAXSTRINGS \<and>
   strings (add_battery_info (predator_parser []) ''T1 battery'' 4) =
     [(''T1 battery'', Literal ''warning'')]"
  using battery_info_strings [of "predator_parser []" "''T1 battery''" "Literal ''warning''"]
  by (simp add: predator_parser_def dc_parser_set_data_def shearwater_predator_parser_set_data_def
      shearwater_predator_parser_create_def shearwater_common_parser_create_def MAXSTRINGS_def)

theorem battery_info_empty_counterexample:
  "strings (add_battery_info (predator_parser []) ''T1 battery'' 0) = [] \<and>
   (''T1 battery'', Literal '''') \<notin> set (strings (add_battery_info (predator_parser []) ''T1 battery'' 0))"
  by (simp add: add_battery_info_def predator_parser_def dc_parser_set_data_def
      shearwater_predator_parser_set_data_def shearwater_predator_parser_create_def
      shearwater_common_parser_create_def)

text \<open>
  C9. For every field kind, unknown kinds and out-of-range string indices included,
  the field accessor called with a null value pointer returns success and writes
  nothing when the cache pass of the buffer succeeds, leaving the parser as the cache
  pass left it. With a null value pointer it never returns the unsupported-field
  error and never writes, whatever the cache pass returns: that error needs a value
  pointer.
\<close>

theorem get_field_null_value:
  "(fst (shearwater_predator_parser_cache parser) = DC_STATUS_SUCCESS \<longrightarrow>
      shearwater_predator_parser_get_field parser type flags False =
        (DC_STATUS_SUCCESS, snd (shearwater_predator_parser_cache parser), None)) \<and>
   fst (shearwater_predator_parser_get_field parser type flags False) \<noteq> DC_STATUS_UNSUPPORTED \<and>
   snd (snd (shearwater_predator_parser_get_field parser type flags False)) = None \<and>
   (fst (shearwater_predator_parser_get_field parser type flags value_given) = DC_STATUS_UNSUPPORTED
      \<longrightarrow> value_given)"
proof -
  obtain rc p1 where c: "shearwater_predator_parser_cache parser = (rc, p1)"
    by (cases "shearwater_predator_parser_cache parser") auto
  have rc: "rc \<noteq> DC_STATUS_UNSUPPORTED"
    using cache_status[of parser] c by auto
  have g: "shearwater_predator_parser_get_field parser type flags False =
      (if rc \<noteq> DC_STATUS_SUCCESS then (rc, p1, None) else (DC_STATUS_SUCCESS, p1, None))"
    by (simp add: shearwater_predator_parser_get_field_def c)
  have u: "value_given"
    if "fst (shearwater_predator_parser_get_field parser type flags value_given) = DC_STATUS_UNSUPPORTED"
  proof (rule ccontr)
    assume "\<not> value_given"
    then have "fst (shearwater_predator_parser_get_field parser type flags value_given) = rc"
      using g by (cases "rc = DC_STATUS_SUCCESS") simp_all
    then show False using that rc by simp
  qed
  show ?thesis using c rc g u by auto
qed

theorem get_field_null_value_witness:
  "fst (shearwater_predator_parser_cache (predator_parser legacy_min)) = DC_STATUS_SUCCESS \<and>
   shearwater_predator_parser_get_field (predator_parser legacy_min) (DC_FIELD_OTHER 99) 40 False =
     (DC_STATUS_SUCCESS, snd (shearwater_predator_parser_cache (predator_parser legacy_min)), None) \<and>
   shearwater_predator_parser_get_field (predator_parser legacy_min) DC_FIELD_STRING 40 True =
     (DC_STATUS_UNSUPPORTED, snd (shearwater_predator_parser_cache (predator_parser legacy_min)), None)"
proof -
  have c: "fst (shearwater_predator_parser_cache (predator_parser legacy_min)) = DC_STATUS_SUCCESS"
    by (simp add: legacy_min_def run_consts run_parser run_reads run_cache)
  have s: "get_field_switch p DC_FIELD_STRING 40 = Inl DC_STATUS_UNSUPPORTED" for p
    by (simp add: get_field_switch_def MAXSTRINGS_def)
  obtain rc p1 where r: "shearwater_predator_parser_cache (predator_parser legacy_min) = (rc, p1)"
    by (cases "shearwater_predator_parser_cache (predator_parser legacy_min)") auto
  have u: "shearwater_predator_parser_get_field (predator_parser legacy_min) DC_FIELD_STRING 40 True =
     (DC_STATUS_UNSUPPORTED, snd (shearwater_predator_parser_cache (predator_parser legacy_min)), None)"
    using c r by (simp add: shearwater_predator_parser_get_field_def s)
  show ?thesis
    using c u get_field_null_value [of "predator_parser legacy_min" "DC_FIELD_OTHER 99" 40 True]
    by simp
qed

text \<open>
  C4. In the sample replay the sample interval is 10 seconds by default; when the
  format is PNF and the log version is at least 9 it is the 16-bit big-endian
  millisecond value at offset 23 of the opening record 5, divided by 1000. A value that
  is not a multiple of 1000 makes the replay fail with a data-format error before it
  emits any sample. Otherwise the interval is the step of the elapsed time: the time
  samples of the replay, in order, are 1, 2, 3, ... times the interval, whatever status
  the replay returns, and when the replay succeeds, every record of the sweep that is a
  dive sample and not empty (and not behind the final record) has its time sample, the
  interval times its rank among the time samples, followed by its depth sample.
  (What the read does when there is no opening record 5 is the subject of C2.)
\<close>

theorem sample_interval_rule:
  assumes "shearwater_predator_parser_cache parser0 = (DC_STATUS_SUCCESS, parser)"
    and "shearwater_predator_parser_samples_foreach parser0 = (rc, parser', samples)"
    and "pnf parser \<noteq> 0 \<and> logversion parser \<ge> 9 \<longrightarrow>
           array_uint16_be (base_data parser) (opening parser ! 5 + 23) = Inr ms"
    and "interval = (if pnf parser \<noteq> 0 \<and> logversion parser \<ge> 9 then ms div 1000 else 10)"
  shows "(pnf parser \<noteq> 0 \<and> logversion parser \<ge> 9 \<and> ms mod 1000 \<noteq> 0 \<longrightarrow>
            rc = DC_STATUS_DATAFORMAT \<and> samples = []) \<and>
         (\<not> (pnf parser \<noteq> 0 \<and> logversion parser \<ge> 9 \<and> ms mod 1000 \<noteq> 0) \<longrightarrow>
            sample_times samples =
              map (\<lambda>k. interval * k) [1..<Suc (length (sample_times samples))] \<and>
            (rc = DC_STATUS_SUCCESS \<and> 0 < samplesize parser \<and>
             swept (headersize parser) (samplesize parser)
               (usub32 (length (base_data parser)) (footersize parser)) off \<and>
             record_type (base_data parser) (pnf parser) off = Inr LOG_RECORD_DIVE_SAMPLE \<and>
             array_isequal (base_data parser) off (samplesize parser) 0 = Inr False \<and>
             (\<forall>off'. swept (headersize parser) (samplesize parser)
                       (usub32 (length (base_data parser)) (footersize parser)) off' \<and> off' < off \<longrightarrow>
                \<not> (pnf parser \<noteq> 0 \<and> u8 (base_data parser) off' = Inr LOG_RECORD_FINAL \<and>
                   u8 (base_data parser) (off' + 1) = Inr 0xFD)) \<longrightarrow>
             (\<exists>pre depth post.
                array_uint16_be (base_data parser) (pnf parser + off) = Inr depth \<and>
                samples = pre @ DC_SAMPLE_TIME (interval * Suc (length (sample_times pre))) #
                            DC_SAMPLE_DEPTH (Depth_tenths depth (units parser)) # post)))"
proof -
  let ?len = "usub32 (length (base_data parser)) (footersize parser)"
  let ?init = "\<lparr> time_s = 0, o2_previous_s = 0, he_previous_s = 0, emitted = [] \<rparr>"
  let ?P = "\<lambda>st. time_s st = interval * length (sample_times (emitted st)) \<and>
      sample_times (emitted st) =
        map (\<lambda>k. interval * k) [1..<Suc (length (sample_times (emitted st)))]"
  have dec: "case sample_interval parser of
       Inl e \<Rightarrow> rc = e \<and> samples = []
     | Inr i \<Rightarrow> \<exists>st. samples_loop parser i ?len (headersize parser) ?init = (rc, st) \<and>
           samples = emitted st"
    using samples_foreach_decomp[OF assms(1,2)] by blast
  have bad: "rc = DC_STATUS_DATAFORMAT \<and> samples = []"
    if "pnf parser \<noteq> 0 \<and> logversion parser \<ge> 9 \<and> ms mod 1000 \<noteq> 0"
  proof -
    have "sample_interval parser = Inl DC_STATUS_DATAFORMAT"
      using that assms(3) by (simp add: sample_interval_def)
    then show ?thesis using dec by simp
  qed
  have good: "sample_times samples =
              map (\<lambda>k. interval * k) [1..<Suc (length (sample_times samples))] \<and>
            (rc = DC_STATUS_SUCCESS \<and> 0 < samplesize parser \<and>
             swept (headersize parser) (samplesize parser) ?len off \<and>
             record_type (base_data parser) (pnf parser) off = Inr LOG_RECORD_DIVE_SAMPLE \<and>
             array_isequal (base_data parser) off (samplesize parser) 0 = Inr False \<and>
             (\<forall>off'. swept (headersize parser) (samplesize parser) ?len off' \<and> off' < off \<longrightarrow>
                \<not> (pnf parser \<noteq> 0 \<and> u8 (base_data parser) off' = Inr LOG_RECORD_FINAL \<and>
                   u8 (base_data parser) (off' + 1) = Inr 0xFD)) \<longrightarrow>
             (\<exists>pre depth post.
                array_uint16_be (base_data parser) (pnf parser + off) = Inr depth \<and>
                samples = pre @ DC_SAMPLE_TIME (interval * Suc (length (sample_times pre))) #
                            DC_SAMPLE_DEPTH (Depth_tenths depth (units parser)) # post))"
    if ok: "\<not> (pnf parser \<noteq> 0 \<and> logversion parser \<ge> 9 \<and> ms mod 1000 \<noteq> 0)"
  proof -
    have "sample_interval parser = Inr interval"
    proof (cases "pnf parser \<noteq> 0 \<and> logversion parser \<ge> 9")
      case True
      then show ?thesis using ok assms(3,4) by (simp add: sample_interval_def)
    next
      case False
      then show ?thesis using assms(4) by (auto simp: sample_interval_def)
    qed
    then obtain st where loop: "samples_loop parser interval ?len (headersize parser) ?init = (rc, st)"
      and s: "samples = emitted st"
      using dec by auto
    have init: "?P ?init" by simp
    have step: "?P st2" if "?P st1" and "samples_record parser interval o1 st1 = (c, st2)"
      for o1 st1 c st2
      using samples_record_times[OF that] .
    have inv: "?P st"
      by (rule samples_loop_invariant[OF loop, where P = ?P, OF init step])
    have emit: "\<exists>pre depth post.
                array_uint16_be (base_data parser) (pnf parser + off) = Inr depth \<and>
                samples = pre @ DC_SAMPLE_TIME (interval * Suc (length (sample_times pre))) #
                            DC_SAMPLE_DEPTH (Depth_tenths depth (units parser)) # post"
      if rc: "rc = DC_STATUS_SUCCESS" and ss: "0 < samplesize parser"
        and sw: "swept (headersize parser) (samplesize parser) ?len off"
        and ty: "record_type (base_data parser) (pnf parser) off = Inr LOG_RECORD_DIVE_SAMPLE"
        and ne: "array_isequal (base_data parser) off (samplesize parser) 0 = Inr False"
        and nb: "\<forall>off'. swept (headersize parser) (samplesize parser) ?len off' \<and> off' < off \<longrightarrow>
                \<not> (pnf parser \<noteq> 0 \<and> u8 (base_data parser) off' = Inr LOG_RECORD_FINAL \<and>
                   u8 (base_data parser) (off' + 1) = Inr 0xFD)"
    proof -
      have loop': "samples_loop parser interval ?len (headersize parser) ?init = (DC_STATUS_SUCCESS, st)"
        using loop rc by simp
      have "\<exists>st0 st1 post. ?P st0 \<and>
          samples_dive_sample parser interval off st0 = (Continue, st1) \<and>
          emitted st = emitted st1 @ post"
        by (rule samples_loop_dive_sample[OF loop' sw ss ty ne nb, where P = ?P, OF init step])
      then obtain st0 st1 post where p0: "?P st0"
        and d: "samples_dive_sample parser interval off st0 = (Continue, st1)"
        and e: "emitted st = emitted st1 @ post"
        by blast
      from d show ?thesis
      proof (cases rule: samples_dive_sample_cases)
        case (fail_head e)
        then show ?thesis by simp
      next
        case (emit head rest)
        obtain depth hrest where dp: "array_uint16_be (base_data parser) (pnf parser + off) = Inr depth"
          and h: "head = [DC_SAMPLE_TIME (time_s st0 + interval),
                   DC_SAMPLE_DEPTH (Depth_tenths depth (units parser)),
                   DC_SAMPLE_TEMPERATURE
                     (Temperature_byte (sample_temperature (base_data parser ! (off + pnf parser + 13)))
                        (units parser))] @ hrest"
          using sample_head_Inr[OF emit(1)] by blast
        have t: "time_s st0 + interval = interval * Suc (length (sample_times (emitted st0)))"
          using p0 by simp
        have "samples = emitted st0 @
            DC_SAMPLE_TIME (interval * Suc (length (sample_times (emitted st0)))) #
            DC_SAMPLE_DEPTH (Depth_tenths depth (units parser)) #
            (DC_SAMPLE_TEMPERATURE
               (Temperature_byte (sample_temperature (base_data parser ! (off + pnf parser + 13)))
                  (units parser)) # hrest @ rest @ post)"
          using s e emit(3) h t by simp
        then show ?thesis using dp by blast
      qed
    qed
    have 1: "sample_times samples =
        map (\<lambda>k. interval * k) [1..<Suc (length (sample_times samples))]"
      using inv s by simp
    show ?thesis
    proof (intro conjI impI)
      show "sample_times samples =
          map (\<lambda>k. interval * k) [1..<Suc (length (sample_times samples))]" by (rule 1)
    next
      assume h: "rc = DC_STATUS_SUCCESS \<and> 0 < samplesize parser \<and>
             swept (headersize parser) (samplesize parser) ?len off \<and>
             record_type (base_data parser) (pnf parser) off = Inr LOG_RECORD_DIVE_SAMPLE \<and>
             array_isequal (base_data parser) off (samplesize parser) 0 = Inr False \<and>
             (\<forall>off'. swept (headersize parser) (samplesize parser) ?len off' \<and> off' < off \<longrightarrow>
                \<not> (pnf parser \<noteq> 0 \<and> u8 (base_data parser) off' = Inr LOG_RECORD_FINAL \<and>
                   u8 (base_data parser) (off' + 1) = Inr 0xFD))"
      show "\<exists>pre depth post.
                array_uint16_be (base_data parser) (pnf parser + off) = Inr depth \<and>
                samples = pre @ DC_SAMPLE_TIME (interval * Suc (length (sample_times pre))) #
                            DC_SAMPLE_DEPTH (Depth_tenths depth (units parser)) # post"
        using h by (intro emit) blast+
    qed
  qed
  show ?thesis using bad good by blast
qed

theorem sample_interval_rule_witness:
  "shearwater_predator_parser_samples_foreach (petrel_parser (pnf_buf [opening_5 0x05 0xDC])) =
     (DC_STATUS_DATAFORMAT,
      snd (shearwater_predator_parser_cache (petrel_parser (pnf_buf [opening_5 0x05 0xDC]))), []) \<and>
   sample_times (snd (snd (shearwater_predator_parser_samples_foreach
      (petrel_parser (pnf_buf [opening_5 0x07 0xD0, pnf_sample 21 0 0x10, pnf_sample 50 0 0x10]))))) =
     [2, 4] \<and>
   (\<exists>pre post. snd (snd (shearwater_predator_parser_samples_foreach
      (petrel_parser (pnf_buf [opening_5 0x07 0xD0, pnf_sample 21 0 0x10, pnf_sample 50 0 0x10])))) =
      pre @ DC_SAMPLE_TIME (2 * Suc (length (sample_times pre))) #
            DC_SAMPLE_DEPTH (Depth_tenths 100 0) # post) \<and>
   sample_times (snd (snd (shearwater_predator_parser_samples_foreach
      (predator_parser (legacy_buf [cold_sample, colder_sample]))))) = [10, 20] \<and>
   (\<exists>pre post. snd (snd (shearwater_predator_parser_samples_foreach
      (predator_parser (legacy_buf [cold_sample, colder_sample])))) =
      pre @ DC_SAMPLE_TIME (10 * Suc (length (sample_times pre))) #
            DC_SAMPLE_DEPTH (Depth_tenths 100 0) # post)"
proof -
  let ?A = "pnf_cached [opening_5 0x05 0xDC] [0, 32, 64, 96, 128, 160, UNDEFINED]
        [192, 224, 256, 288, 320, UNDEFINED, UNDEFINED] 0
        (replicate 10 0) (replicate 10 0) DC_DIVEMODE_OC []"
  let ?B = "pnf_cached [opening_5 0x07 0xD0, pnf_sample 21 0 0x10, pnf_sample 50 0 0x10]
        [0, 32, 64, 96, 128, 160, UNDEFINED]
        [256, 288, 320, 352, 384, UNDEFINED, UNDEFINED] 2
        [21, 50, 0, 0, 0, 0, 0, 0, 0, 0] (replicate 10 0) DC_DIVEMODE_OC []"
  let ?L = "legacy_cached [cold_sample, colder_sample] 1 [21, 0, 0, 0, 0, 0, 0, 0, 0, 0]"
  let ?bufB = "pnf_buf [opening_5 0x07 0xD0, pnf_sample 21 0 0x10, pnf_sample 50 0 0x10]"
  let ?bufL = "legacy_buf [cold_sample, colder_sample]"
  obtain rcA pA sA where fa: "shearwater_predator_parser_samples_foreach
      (petrel_parser (pnf_buf [opening_5 0x05 0xDC])) = (rcA, pA, sA)"
    using prod_cases3 by blast
  have a: "pnf ?A \<noteq> 0 \<and> logversion ?A \<ge> 9 \<longrightarrow>
      array_uint16_be (base_data ?A) (opening ?A ! 5 + 23) = Inr 1500"
    by (simp add: run_fixtures run_parser run_reads)
  have ra: "rcA = DC_STATUS_DATAFORMAT \<and> sA = []"
    using sample_interval_rule[OF cache_pnf_interval_1500 fa a refl]
    by (simp add: pnf_cached_layout)
  have pa: "pA = ?A"
    using samples_foreach_decomp[OF cache_pnf_interval_1500 fa] by simp
  have b: "pnf ?B \<noteq> 0 \<and> logversion ?B \<ge> 9 \<longrightarrow>
      array_uint16_be (base_data ?B) (opening ?B ! 5 + 23) = Inr 2000"
    by (simp add: run_fixtures run_parser run_reads)
  have lenB: "length ?bufB = 416" by (simp add: run_fixtures length_records)
  have swB: "swept 0 32 (usub32 416 0) 192" by (simp add: swept_def usub32_def)
  have tyB: "record_type ?bufB 1 192 = Inr LOG_RECORD_DIVE_SAMPLE"
    by (simp add: run_fixtures run_reads LOG_RECORD_DIVE_SAMPLE_def)
  have neB: "array_isequal ?bufB 192 32 0 = Inr False"
    by (simp add: run_fixtures run_reads)
  have nbB: "\<forall>off'. swept 0 32 (usub32 416 0) off' \<and> off' < 192 \<longrightarrow>
      \<not> ((1::nat) \<noteq> 0 \<and> u8 ?bufB off' = Inr LOG_RECORD_FINAL \<and> u8 ?bufB (off' + 1) = Inr 0xFD)"
  proof -
    have "\<forall>off'. swept 0 32 416 off' \<longrightarrow> (off' < 192 \<longrightarrow> u8 ?bufB off' \<noteq> Inr LOG_RECORD_FINAL)"
      unfolding all_swept_0[of 32, simplified]
      by (simp add: run_fixtures run_reads LOG_RECORD_FINAL_def upt_conv_Cons)
    then show ?thesis by (simp add: usub32_def)
  qed
  have dB: "array_uint16_be ?bufB (1 + 192) = Inr 100"
    by (simp add: run_fixtures run_reads)
  have rb: "sample_times (snd (snd (shearwater_predator_parser_samples_foreach (petrel_parser ?bufB)))) =
      map (\<lambda>k. 2 * k) [1..<Suc (length (sample_times
        (snd (snd (shearwater_predator_parser_samples_foreach (petrel_parser ?bufB))))))] \<and>
     (\<exists>pre depth post. array_uint16_be ?bufB (1 + 192) = Inr depth \<and>
        snd (snd (shearwater_predator_parser_samples_foreach (petrel_parser ?bufB))) =
        pre @ DC_SAMPLE_TIME (2 * Suc (length (sample_times pre))) #
              DC_SAMPLE_DEPTH (Depth_tenths depth 0) # post)"
    using sample_interval_rule[OF cache_pnf_interval_2000 samples_pnf_interval_2000 b refl, of 192]
      swB tyB neB nbB
    by (simp add: pnf_cached_layout lenB samples_pnf_interval_2000)
  have l: "pnf ?L \<noteq> 0 \<and> logversion ?L \<ge> 9 \<longrightarrow>
      array_uint16_be (base_data ?L) (opening ?L ! 5 + 23) = Inr 0"
    by (simp add: legacy_cold_layout)
  have swL: "swept 128 16 (usub32 288 128) 144" by (simp add: swept_def usub32_def)
  have tyL: "record_type ?bufL 0 144 = Inr LOG_RECORD_DIVE_SAMPLE"
    by (simp add: record_type_def)
  have neL: "array_isequal ?bufL 144 16 0 = Inr False"
    by (simp add: run_legacy run_reads)
  have dL: "array_uint16_be ?bufL 144 = Inr 100"
    by (simp add: run_legacy run_reads)
  have rl: "sample_times (snd (snd (shearwater_predator_parser_samples_foreach (predator_parser ?bufL)))) =
      map (\<lambda>k. 10 * k) [1..<Suc (length (sample_times
        (snd (snd (shearwater_predator_parser_samples_foreach (predator_parser ?bufL))))))] \<and>
     (\<exists>pre depth post. array_uint16_be ?bufL (0 + 144) = Inr depth \<and>
        snd (snd (shearwater_predator_parser_samples_foreach (predator_parser ?bufL))) =
        pre @ DC_SAMPLE_TIME (10 * Suc (length (sample_times pre))) #
              DC_SAMPLE_DEPTH (Depth_tenths depth 0) # post)"
    using sample_interval_rule[OF cache_legacy_cold samples_legacy_cold l refl, of 144]
      swL tyL neL
    by (simp add: legacy_cold_layout samples_legacy_cold)
  have tb: "sample_times (snd (snd (shearwater_predator_parser_samples_foreach (petrel_parser ?bufB)))) = [2, 4]"
    by (simp add: samples_pnf_interval_2000)
  have tl: "sample_times (snd (snd (shearwater_predator_parser_samples_foreach (predator_parser ?bufL)))) = [10, 20]"
    by (simp add: samples_legacy_cold)
  have eb: "\<exists>pre post. snd (snd (shearwater_predator_parser_samples_foreach (petrel_parser ?bufB))) =
      pre @ DC_SAMPLE_TIME (2 * Suc (length (sample_times pre))) #
            DC_SAMPLE_DEPTH (Depth_tenths 100 0) # post"
    using rb dB by auto
  have el: "\<exists>pre post. snd (snd (shearwater_predator_parser_samples_foreach (predator_parser ?bufL))) =
      pre @ DC_SAMPLE_TIME (10 * Suc (length (sample_times pre))) #
            DC_SAMPLE_DEPTH (Depth_tenths 100 0) # post"
    using rl dL by auto
  have "shearwater_predator_parser_samples_foreach (petrel_parser (pnf_buf [opening_5 0x05 0xDC])) =
     (DC_STATUS_DATAFORMAT,
      snd (shearwater_predator_parser_cache (petrel_parser (pnf_buf [opening_5 0x05 0xDC]))), [])"
    using fa ra pa by (simp add: cache_pnf_interval_1500)
  then show ?thesis using tb eb tl el by blast
qed

text \<open>
  C2 (the code does not do this). The claim is that an offset slot holding the
  sentinel \<open>UNDEFINED\<close> is checked before it is used in offset arithmetic or a read. The
  cache pass verifies the opening and closing records 0..4 only, and the replay reads
  the sample interval at \<open>opening[5] + 23\<close> whenever the format is PNF and the log version
  is at least 9. For a PNF buffer of log version 9 without an opening record 5 the
  cache pass succeeds, the slot 5 still holds \<open>UNDEFINED\<close>, and the replay reads at
  \<open>UNDEFINED + 23\<close>, outside the buffer.
\<close>

theorem interval_read_at_undefined_opening:
  "fst (shearwater_predator_parser_cache (petrel_parser (pnf_buf []))) = DC_STATUS_SUCCESS \<and>
   logversion (snd (shearwater_predator_parser_cache (petrel_parser (pnf_buf [])))) = 9 \<and>
   opening (snd (shearwater_predator_parser_cache (petrel_parser (pnf_buf [])))) ! 5 = UNDEFINED \<and>
   sample_interval (snd (shearwater_predator_parser_cache (petrel_parser (pnf_buf [])))) =
     rbind (array_uint16_be (pnf_buf []) (UNDEFINED + 23))
       (\<lambda>interval. if interval mod 1000 \<noteq> 0 then Inl DC_STATUS_DATAFORMAT else Inr (interval div 1000)) \<and>
   length (pnf_buf []) = 320 \<and>
   fst (shearwater_predator_parser_samples_foreach (petrel_parser (pnf_buf []))) = OUT_OF_BOUNDS"
proof -
  let ?A = "pnf_cached [] [0, 32, 64, 96, 128, UNDEFINED, UNDEFINED]
        [160, 192, 224, 256, 288, UNDEFINED, UNDEFINED] 0
        (replicate 10 0) (replicate 10 0) DC_DIVEMODE_OC []"
  have f: "logversion ?A = 9 \<and> opening ?A ! 5 = UNDEFINED \<and> pnf ?A = 1 \<and> base_data ?A = pnf_buf []"
    by (simp add: pnf_cached_def run_parser)
  have l: "length (pnf_buf []) = 320"
    by (simp add: pnf_buf_def length_records)
  have i: "sample_interval ?A =
     rbind (array_uint16_be (pnf_buf []) (UNDEFINED + 23))
       (\<lambda>interval. if interval mod 1000 \<noteq> 0 then Inl DC_STATUS_DATAFORMAT else Inr (interval div 1000))"
    using f by (simp add: sample_interval_def)
  have o: "array_uint16_be (pnf_buf []) (UNDEFINED + 23) = Inl OUT_OF_BOUNDS"
    using l by (simp add: array_uint16_be_def u8_def UNDEFINED_def)
  have "shearwater_predator_parser_samples_foreach (petrel_parser (pnf_buf [])) = (OUT_OF_BOUNDS, ?A, [])"
    using i o by (simp add: shearwater_predator_parser_samples_foreach_def cache_pnf_no_opening_5)
  then show ?thesis using f l i by (simp add: cache_pnf_no_opening_5)
qed




end
